(* ===== verification/Prelude.thy ===== *)
theory Prelude
  imports Main "HOL-Library.Sublist"
begin

text \<open>
  Shared ground of the development: Go errors and their wrapping, the shape of a call into
  an external service, Go maps as association lists, and the generic facts on strings,
  lists and maps that the component theories use.

  A Go string is a sequence of bytes and is a \<^typ>\<open>string\<close> here (a \<^typ>\<open>char\<close> is a byte).
  A Go \<^verbatim>\<open>error\<close> is a \<open>goerr\<close>: the text that \<^verbatim>\<open>Error()\<close> returns and the error it wraps.
  A fallible function returns \<open>goerr + 'a\<close>, with \<open>Inl\<close> for the error.
\<close>

section \<open>Proof collections\<close>

named_theorems wire_eval \<open>well-formed strings and integers, evaluated on concrete values\<close>
named_theorems config_defs \<open>the definitions that read a configuration, to unfold\<close>

section \<open>Errors\<close>

datatype goerr = GoErr (err_text: string) (err_unwrap: "goerr option")

definition errors_new :: "string \<Rightarrow> goerr" where
  "errors_new s = GoErr s None"

text \<open>\<^verbatim>\<open>fmt.Errorf("<prefix>%w", err)\<close>: the text is prefixed, the cause is kept.\<close>

definition wrapf :: "string \<Rightarrow> goerr \<Rightarrow> goerr" where
  "wrapf pre e = GoErr (pre @ err_text e) (Some e)"

text \<open>\<^verbatim>\<open>errors.Is\<close> walks the chain of causes.\<close>

fun errors_is :: "goerr \<Rightarrow> goerr \<Rightarrow> bool" where
  "errors_is (GoErr s None) t = (GoErr s None = t)"
| "errors_is (GoErr s (Some e)) t = (GoErr s (Some e) = t \<or> errors_is e t)"

lemma err_text_errors_new [simp]: "err_text (errors_new s) = s"
  by (simp add: errors_new_def)

lemma err_text_wrapf [simp]: "err_text (wrapf pre e) = pre @ err_text e"
  by (simp add: wrapf_def)

lemma errors_is_refl [simp]: "errors_is e e"
  by (cases "(e, e)" rule: errors_is.cases) auto

lemma errors_is_wrapf: "errors_is e t \<Longrightarrow> errors_is (wrapf pre e) t"
  by (simp add: wrapf_def)

section \<open>Calls into external services\<close>

text \<open>
  A service (Redis, the Kubernetes API, the asynq broker) is some state of type \<open>'w\<close>; a call
  returns an error or a value and the state after the call. A context is either live or done
  with its \<^verbatim>\<open>ctx.Err()\<close>.
\<close>

type_synonym ('w, 'a) call = "'w \<Rightarrow> (goerr + 'a) \<times> 'w"

datatype ctx = Live | Done goerr

definition ctx_err :: "ctx \<Rightarrow> goerr option" where
  "ctx_err c = (case c of Live \<Rightarrow> None | Done e \<Rightarrow> Some e)"

section \<open>Go maps with string keys\<close>

text \<open>
  A \<^verbatim>\<open>map[string]string\<close> is an association list; reading a missing key gives the zero value.
\<close>

type_synonym fields = "(string \<times> string) list"

definition get_str :: "fields \<Rightarrow> string \<Rightarrow> string" where
  "get_str m k = (case map_of m k of None \<Rightarrow> [] | Some v \<Rightarrow> v)"

definition str_of :: "string option \<Rightarrow> string" where
  "str_of x = (case x of None \<Rightarrow> [] | Some v \<Rightarrow> v)"

lemma str_of_simps [simp]: "str_of None = []" "str_of (Some v) = v"
  by (simp_all add: str_of_def)

lemma get_str_map_of: "get_str m k = str_of (map_of m k)"
  by (simp add: get_str_def str_of_def)

lemma map_of_eq_empty_iff [simp]: "map_of xs = Map.empty \<longleftrightarrow> xs = []"
  by (cases xs) (auto simp: fun_eq_iff split: if_splits)

lemma map_of_nonempty_ex: "xs \<noteq> [] \<Longrightarrow> \<exists>k v. map_of xs k = Some v"
  by (cases xs) auto

section \<open>Strings\<close>

definition has_suffix :: "string \<Rightarrow> string \<Rightarrow> bool" where
  "has_suffix s t \<longleftrightarrow> length t \<le> length s \<and> drop (length s - length t) s = t"

lemma has_suffix_iff: "has_suffix s t \<longleftrightarrow> (\<exists>p. s = p @ t)"
proof
  assume "has_suffix s t"
  then have "s = take (length s - length t) s @ t"
    by (metis append_take_drop_id has_suffix_def)
  then show "\<exists>p. s = p @ t" by blast
qed (auto simp: has_suffix_def)

section \<open>Lists\<close>

lemma sum_list_map_concat: "sum_list (map f (concat xss)) = sum_list (map (\<lambda>xs. sum_list (map f xs)) xss)"
  by (induction xss) auto

lemma take_drop_split: "i \<le> j \<Longrightarrow> take (j - i) (drop i xs) @ drop j xs = drop i xs"
  by (metis append_take_drop_id drop_drop le_add_diff_inverse2)

lemma distinct_map_fst_map_of:
  "distinct (map fst xs) \<Longrightarrow> (k, v) \<in> set xs \<Longrightarrow> map_of xs k = Some v"
  by simp

lemma distinct_set_singleton: "distinct xs \<Longrightarrow> set xs = {x} \<Longrightarrow> xs = [x]"
  by (cases xs; cases "tl xs") auto

lemma sum_list_map_update:
  fixes f :: "'a \<Rightarrow> 'b::comm_monoid_add"
  shows "i < length xs \<Longrightarrow> sum_list (map f (xs[i := x])) + f (xs ! i) = sum_list (map f xs) + f x"
proof (induction xs arbitrary: i)
  case (Cons y ys)
  then show ?case by (cases i) (simp_all add: add.commute add.left_commute)
qed simp

lemma sum_list_map_update_nat:
  fixes f :: "'a \<Rightarrow> nat"
  shows "i < length xs \<Longrightarrow> sum_list (map f (xs[i := x])) = sum_list (map f xs) + f x - f (xs ! i)"
  using sum_list_map_update [of i xs f x] by simp

end
