(* ===== verification/Strconv.thy ===== *)
theory Strconv
  imports Prelude
begin

text \<open>
  The decimal conversions of Go's \<^verbatim>\<open>strconv\<close> that the progress store and the configuration
  use: \<^verbatim>\<open>Itoa\<close> (counters are stored in Redis as decimal strings) and \<^verbatim>\<open>Atoi\<close> (they are read
  back, and numeric environment variables are parsed with it). A Go \<^verbatim>\<open>int\<close> has 64 bits.
  \<^verbatim>\<open>Atoi\<close> returns a value beside its error: 0 on a syntax error and the nearest bound on a
  range error, which matters because \<^verbatim>\<open>ProgressStore.Get\<close> ignores the error.
\<close>

definition max_uint64 :: nat where "max_uint64 = 18446744073709551615"
definition max_int64 :: int where "max_int64 = 9223372036854775807"
definition min_int64 :: int where "min_int64 = - 9223372036854775808"

definition is_int64 :: "int \<Rightarrow> bool" where
  "is_int64 i \<longleftrightarrow> min_int64 \<le> i \<and> i \<le> max_int64"

declare min_int64_def [wire_eval] max_int64_def [wire_eval] is_int64_def [wire_eval]

section \<open>Itoa\<close>

definition digit_char :: "nat \<Rightarrow> char" where
  "digit_char d = char_of (48 + d)"

fun digits :: "nat \<Rightarrow> string" where
  "digits n = (if n < 10 then [digit_char n] else digits (n div 10) @ [digit_char (n mod 10)])"

declare digits.simps [simp del]

definition itoa :: "int \<Rightarrow> string" where
  "itoa i = (if i < 0 then CHR ''-'' # digits (nat (- i)) else digits (nat i))"

section \<open>Atoi\<close>

datatype num_err = ErrSyntax | ErrRange

definition digit_val :: "char \<Rightarrow> nat option" where
  "digit_val c = (let k = (of_char c :: nat) in if 48 \<le> k \<and> k \<le> 57 then Some (k - 48) else None)"

text \<open>
  The loop of \<^verbatim>\<open>ParseUint\<close> in base 10: the range test on the accumulator comes before the
  multiplication, and a range error is reported before a later syntax error is seen.
\<close>

fun parse_uint_loop :: "nat \<Rightarrow> string \<Rightarrow> num_err + nat" where
  "parse_uint_loop n [] = Inr n"
| "parse_uint_loop n (c # cs) =
     (case digit_val c of
        None \<Rightarrow> Inl ErrSyntax
      | Some d \<Rightarrow>
          if max_uint64 div 10 + 1 \<le> n then Inl ErrRange
          else if max_uint64 < n * 10 + d then Inl ErrRange
          else parse_uint_loop (n * 10 + d) cs)"

definition parse_uint :: "string \<Rightarrow> num_err + nat" where
  "parse_uint s = (if s = [] then Inl ErrSyntax else parse_uint_loop 0 s)"

definition strip_sign :: "string \<Rightarrow> bool \<times> string" where
  "strip_sign s = (case s of
      [] \<Rightarrow> (False, [])
    | c # cs \<Rightarrow> if c = CHR ''+'' then (False, cs) else if c = CHR ''-'' then (True, cs) else (False, s))"

definition atoi :: "string \<Rightarrow> int \<times> num_err option" where
  "atoi s =
     (let (neg, ds) = strip_sign s in
      case parse_uint ds of
        Inl ErrSyntax \<Rightarrow> (0, Some ErrSyntax)
      | Inl ErrRange \<Rightarrow> (if neg then min_int64 else max_int64, Some ErrRange)
      | Inr un \<Rightarrow>
          if \<not> neg \<and> max_int64 < int un then (max_int64, Some ErrRange)
          else if neg \<and> - min_int64 < int un then (min_int64, Some ErrRange)
          else (if neg then - int un else int un, None))"

definition atoi_val :: "string \<Rightarrow> int" where
  "atoi_val s = fst (atoi s)"

section \<open>Facts\<close>

lemma digit_val_digit_char [simp]: "d < 10 \<Longrightarrow> digit_val (digit_char d) = Some d"
  by (auto simp: digit_val_def digit_char_def Let_def)

lemma digits_nonempty [simp]: "digits n \<noteq> []"
  by (subst digits.simps) simp

lemma digits_are_digits: "c \<in> set (digits n) \<Longrightarrow> digit_val c \<noteq> None"
proof (induction n rule: digits.induct)
  case (1 n)
  then show ?case
    by (cases "n < 10") (auto simp: digits.simps [of n])
qed

lemma parse_uint_loop_append:
  "parse_uint_loop n (xs @ ys) =
     (case parse_uint_loop n xs of Inl e \<Rightarrow> Inl e | Inr m \<Rightarrow> parse_uint_loop m ys)"
  by (induction xs arbitrary: n) (auto split: option.splits)

lemma parse_uint_loop_digits: "m \<le> max_uint64 \<Longrightarrow> parse_uint_loop 0 (digits m) = Inr m"
proof (induction m rule: digits.induct)
  case (1 m)
  show ?case
  proof (cases "m < 10")
    case True
    then show ?thesis by (simp add: digits.simps [of m] max_uint64_def)
  next
    case False
    have "m div 10 \<le> m" by simp
    with "1.prems" have "m div 10 \<le> max_uint64" by linarith
    with False "1.IH" have "parse_uint_loop 0 (digits (m div 10)) = Inr (m div 10)" by simp
    moreover have "m div 10 < max_uint64 div 10 + 1"
      using "1.prems" by (simp add: div_le_mono less_Suc_eq_le)
    moreover have "m div 10 * 10 + m mod 10 = m" by simp
    ultimately show ?thesis
      using False "1.prems" by (simp add: digits.simps [of m] parse_uint_loop_append)
  qed
qed

lemma strip_sign_digits: "strip_sign (digits n) = (False, digits n)"
proof -
  obtain c cs where c: "digits n = c # cs" by (cases "digits n") auto
  then have "digit_val c \<noteq> None" using digits_are_digits [of c n] by simp
  then have "c \<noteq> CHR ''+''" "c \<noteq> CHR ''-''" by (auto simp: digit_val_def)
  with c show ?thesis by (simp add: strip_sign_def)
qed

lemma atoi_itoa: "is_int64 i \<Longrightarrow> atoi (itoa i) = (i, None)"
proof (cases "i < 0")
  case True
  assume "is_int64 i"
  with True have "nat (- i) \<le> max_uint64" "\<not> - min_int64 < int (nat (- i))"
    by (auto simp: is_int64_def min_int64_def max_uint64_def)
  with True show ?thesis
    by (simp add: atoi_def itoa_def strip_sign_def parse_uint_def parse_uint_loop_digits)
next
  case False
  assume "is_int64 i"
  with False have "nat i \<le> max_uint64" "\<not> max_int64 < int (nat i)"
    by (auto simp: is_int64_def max_int64_def max_uint64_def)
  with False show ?thesis
    by (simp add: atoi_def itoa_def strip_sign_digits parse_uint_def parse_uint_loop_digits)
qed

lemma atoi_val_itoa [simp]: "is_int64 i \<Longrightarrow> atoi_val (itoa i) = i"
  by (simp add: atoi_val_def atoi_itoa)

lemma atoi_val_Nil [simp]: "atoi_val [] = 0"
  by (simp add: atoi_val_def atoi_def strip_sign_def parse_uint_def)

lemma atoi_in_range: "is_int64 (fst (atoi s))"
  by (auto simp: atoi_def is_int64_def min_int64_def max_int64_def Let_def
      split: prod.splits sum.splits num_err.splits)

lemma itoa_inj: "is_int64 i \<Longrightarrow> is_int64 j \<Longrightarrow> itoa i = itoa j \<Longrightarrow> i = j"
  by (metis atoi_val_itoa)

end
