(* ===== verification/Json.thy ===== *)
theory Json
  imports Strconv
begin

text \<open>
  The part of Go's \<^verbatim>\<open>encoding/json\<close> that the program uses: task payloads, API bodies and history
  lines are written with \<^verbatim>\<open>Marshal\<close> and read with \<^verbatim>\<open>Unmarshal\<close>. Strings are bytes; the encoder and
  the decoder replace bytes that are not UTF-8 by the replacement rune. The nesting limit of the
  decoder is kept; the texts of its errors are not.
\<close>

section \<open>UTF-8\<close>

definition byte_in :: "nat \<Rightarrow> nat \<Rightarrow> char \<Rightarrow> bool" where
  "byte_in lo hi c \<longleftrightarrow> lo \<le> (of_char c :: nat) \<and> (of_char c :: nat) \<le> hi"

declare byte_in_def [wire_eval]

text \<open>
  The number of bytes of the rune that a string starts with; 0 if it starts with none. The lead
  byte gives the length and the range of the second byte; later bytes are continuation bytes.
\<close>

definition lead_len :: "char \<Rightarrow> nat" where
  "lead_len c = (if byte_in 0 127 c then 1 else if byte_in 194 223 c then 2
     else if byte_in 224 239 c then 3 else if byte_in 240 244 c then 4 else 0)"

definition second_ok :: "char \<Rightarrow> char \<Rightarrow> bool" where
  "second_ok c0 = byte_in
     (if c0 = CHR 0xE0 then 160 else if c0 = CHR 0xF0 then 144 else 128)
     (if c0 = CHR 0xED then 159 else if c0 = CHR 0xF4 then 143 else 191)"

definition rune_len :: "string \<Rightarrow> nat" where
  "rune_len s = (case s of
     [] \<Rightarrow> 0
   | c # t \<Rightarrow>
       (let k = lead_len c in
        if 0 < k \<and> k \<le> Suc (length t) \<and> (1 < k \<longrightarrow> second_ok c (hd t))
           \<and> list_all (byte_in 128 191) (drop 1 (take (k - 1) t))
        then k else 0))"

lemma rune_len_le: "rune_len s \<le> length s"
  by (auto simp: rune_len_def Let_def split: list.splits)

lemma rune_len_Nil [simp]: "rune_len [] = 0"
  by (simp add: rune_len_def)

lemma rune_len_ascii: "byte_in 0 127 c \<Longrightarrow> rune_len (c # cs) = 1"
  by (simp add: rune_len_def lead_len_def)

lemma rune_len_append: "rune_len s \<noteq> 0 \<Longrightarrow> rune_len (s @ t) = rune_len s"
proof (cases s)
  case (Cons c l)
  assume "rune_len s \<noteq> 0"
  with Cons have k: "lead_len c \<le> Suc (length l)" by (auto simp: rune_len_def Let_def split: if_splits)
  then have "take (lead_len c - 1) (l @ t) = take (lead_len c - 1) l" by simp
  moreover have "1 < lead_len c \<Longrightarrow> hd (l @ t) = hd l" using k by (cases l) auto
  ultimately show ?thesis using Cons k by (simp add: rune_len_def Let_def)
qed simp

function valid_utf8 :: "string \<Rightarrow> bool" where
  "valid_utf8 s = (if s = [] then True else if rune_len s = 0 then False else valid_utf8 (drop (rune_len s) s))"
  by auto
termination
  by (relation "measure length") auto

declare valid_utf8.simps [simp del]

definition replacement :: string where
  "replacement = [CHR 0xEF, CHR 0xBF, CHR 0xBD]"

text \<open>A string with each byte that is not part of a rune replaced: what survives JSON of any string.\<close>

function repair :: "string \<Rightarrow> string" where
  "repair s = (case s of
     [] \<Rightarrow> []
   | c # cs \<Rightarrow> if rune_len s = 0 then replacement @ repair cs else take (rune_len s) s @ repair (drop (rune_len s) s))"
  by pat_completeness auto
termination
  by (relation "measure length") (auto simp: rune_len_le)

declare repair.simps [simp del]

lemma repair_Nil_iff [simp]: "repair s = [] \<longleftrightarrow> s = []"
  by (subst repair.simps) (auto simp: replacement_def split: list.splits)

lemma repair_valid: "valid_utf8 s \<Longrightarrow> repair s = s"
proof (induction "length s" arbitrary: s rule: less_induct)
  case less
  show ?case
  proof (cases s)
    case (Cons c cs)
    from less.prems have n: "rune_len s \<noteq> 0" and v: "valid_utf8 (drop (rune_len s) s)"
      by (subst (asm) valid_utf8.simps, simp add: Cons split: if_splits)+
    have "repair (drop (rune_len s) s) = drop (rune_len s) s" by (rule less.hyps [OF _ v]) (use n Cons in simp)
    then show ?thesis using n Cons by (subst repair.simps) (simp del: drop_Suc_Cons take_Suc_Cons)
  qed (simp add: repair.simps)
qed

definition encode_rune :: "nat \<Rightarrow> string" where
  "encode_rune r =
     (if r < 128 then [char_of r]
      else if r < 2048 then [char_of (192 + r div 64), char_of (128 + r mod 64)]
      else if 55296 \<le> r \<and> r < 57344 \<or> 1114111 < r then replacement
      else if r < 65536 then [char_of (224 + r div 4096), char_of (128 + r div 64 mod 64), char_of (128 + r mod 64)]
      else [char_of (240 + r div 262144), char_of (128 + r div 4096 mod 64), char_of (128 + r div 64 mod 64),
            char_of (128 + r mod 64)])"

section \<open>Strings\<close>

definition hex_char :: "nat \<Rightarrow> char" where
  "hex_char d = (if d < 10 then char_of (48 + d) else char_of (87 + d))"

definition hex_val :: "char \<Rightarrow> nat option" where
  "hex_val c = (let k = (of_char c :: nat) in
     if 48 \<le> k \<and> k \<le> 57 then Some (k - 48)
     else if 97 \<le> k \<and> k \<le> 102 then Some (k - 87)
     else if 65 \<le> k \<and> k \<le> 70 then Some (k - 55) else None)"

definition quote_char :: char where "quote_char = CHR 0x22"
definition backslash :: char where "backslash = CHR 0x5C"

text \<open>The encoder escapes quotes, backslashes, control characters and, for HTML, \<^verbatim>\<open><\<close>, \<^verbatim>\<open>>\<close> and \<^verbatim>\<open>&\<close>.\<close>

definition escape_ascii :: "char \<Rightarrow> string" where
  "escape_ascii c =
     (if c = quote_char \<or> c = backslash then [backslash, c]
      else if c = CHR 0x08 then [backslash, CHR ''b'']
      else if c = CHR 0x0C then [backslash, CHR ''f'']
      else if c = CHR 0x0A then [backslash, CHR ''n'']
      else if c = CHR 0x0D then [backslash, CHR ''r'']
      else if c = CHR 0x09 then [backslash, CHR ''t'']
      else if byte_in 0 31 c \<or> c = CHR ''<'' \<or> c = CHR ''>'' \<or> c = CHR ''&'' then
        [backslash, CHR ''u'', CHR ''0'', CHR ''0'', hex_char (of_char c div 16), hex_char (of_char c mod 16)]
      else [c])"

definition escape_rune :: "string \<Rightarrow> string" where
  "escape_rune ru =
     (if ru = [CHR 0xE2, CHR 0x80, CHR 0xA8] then backslash # ''u2028''
      else if ru = [CHR 0xE2, CHR 0x80, CHR 0xA9] then backslash # ''u2029''
      else ru)"

function escape :: "string \<Rightarrow> string" where
  "escape s = (case s of
     [] \<Rightarrow> []
   | c # cs \<Rightarrow>
      if byte_in 0 127 c then escape_ascii c @ escape cs
      else if rune_len s = 0 then backslash # ''ufffd'' @ escape cs
      else escape_rune (take (rune_len s) s) @ escape (drop (rune_len s) s))"
  by pat_completeness auto
termination
  by (relation "measure length") (auto simp: rune_len_le)

declare escape.simps [simp del]

definition quote :: "string \<Rightarrow> string" where
  "quote s = quote_char # escape s @ [quote_char]"

definition hex4 :: "string \<Rightarrow> (nat \<times> string) option" where
  "hex4 s = (case s of
     a # b # c # d # rest \<Rightarrow>
       (case (hex_val a, hex_val b, hex_val c, hex_val d) of
          (Some w, Some x, Some y, Some z) \<Rightarrow> Some (((w * 16 + x) * 16 + y) * 16 + z, rest)
        | _ \<Rightarrow> None)
   | _ \<Rightarrow> None)"

text \<open>An escape \<^verbatim>\<open>\uXXXX\<close>; a surrogate needs its partner, alone it is the replacement rune.\<close>

definition unescape_u :: "string \<Rightarrow> (string \<times> string) option" where
  "unescape_u s = (case hex4 s of
     None \<Rightarrow> None
   | Some (r, rest) \<Rightarrow>
       if 55296 \<le> r \<and> r < 57344 then
         (case rest of
            b # u # rest' \<Rightarrow>
              if b = backslash \<and> u = CHR ''u'' then
                (case hex4 rest' of
                   Some (r', rest'') \<Rightarrow>
                     if r < 56320 \<and> 56320 \<le> r' \<and> r' < 57344
                     then Some (encode_rune ((r - 55296) * 1024 + (r' - 56320) + 65536), rest'')
                     else Some (replacement, rest)
                 | None \<Rightarrow> Some (replacement, rest))
              else Some (replacement, rest)
          | _ \<Rightarrow> Some (replacement, rest))
       else Some (encode_rune r, rest))"

definition simple_escape :: "char \<Rightarrow> char option" where
  "simple_escape e =
     (if e = quote_char \<or> e = backslash \<or> e = CHR ''/'' then Some e
      else if e = CHR ''b'' then Some (CHR 0x08) else if e = CHR ''f'' then Some (CHR 0x0C)
      else if e = CHR ''n'' then Some (CHR 0x0A) else if e = CHR ''r'' then Some (CHR 0x0D)
      else if e = CHR ''t'' then Some (CHR 0x09) else None)"

lemma hex4_shorter: "hex4 s = Some (r, rest) \<Longrightarrow> length rest < length s"
  by (auto simp: hex4_def split: list.splits option.splits)

lemma unescape_u_shorter: "unescape_u s = Some (t, rest) \<Longrightarrow> length rest < length s"
  by (auto simp: unescape_u_def split: list.splits option.splits if_splits dest!: hex4_shorter)

text \<open>The body of a string literal up to its closing quote, and what follows.\<close>

function unescape :: "string \<Rightarrow> (string \<times> string) option" where
  "unescape s = (case s of
     [] \<Rightarrow> None
   | c # cs \<Rightarrow>
      if c = quote_char then Some ([], cs)
      else if c = backslash then
        (case cs of
           [] \<Rightarrow> None
         | e # ds \<Rightarrow>
             if e = CHR ''u'' then
               (case unescape_u ds of
                  None \<Rightarrow> None
                | Some (t, rest) \<Rightarrow> map_option (apfst ((@) t)) (unescape rest))
             else (case simple_escape e of
                     None \<Rightarrow> None
                   | Some x \<Rightarrow> map_option (apfst ((#) x)) (unescape ds)))
      else if byte_in 0 31 c then None
      else if byte_in 0 127 c then map_option (apfst ((#) c)) (unescape cs)
      else if rune_len s = 0 then map_option (apfst ((@) replacement)) (unescape cs)
      else map_option (apfst ((@) (take (rune_len s) s))) (unescape (drop (rune_len s) s)))"
  by pat_completeness auto
termination
  by (relation "measure length") (auto simp: rune_len_le dest: unescape_u_shorter)

declare unescape.simps [simp del]

section \<open>Strings survive the round trip\<close>

lemma rune_len_take: "rune_len s = n \<Longrightarrow> n \<noteq> 0 \<Longrightarrow> rune_len (take n s) = n"
proof (cases s)
  case (Cons c l)
  assume n: "rune_len s = n" "n \<noteq> 0"
  with Cons have k: "lead_len c = n" "n \<le> Suc (length l)" by (auto simp: rune_len_def Let_def split: if_splits)
  then have "take n s = c # take (n - 1) l" using n Cons by (cases n) auto
  moreover have "1 < n \<Longrightarrow> hd (take (n - 1) l) = hd l" by (cases l; cases "n - 1") auto
  ultimately show ?thesis using n Cons k by (auto simp: rune_len_def Let_def split: if_splits)
qed simp

lemma hex_val_hex_char [simp]: "d < 16 \<Longrightarrow> hex_val (hex_char d) = Some d"
  by (auto simp: hex_val_def hex_char_def Let_def)

lemma hex_val_0 [simp]: "hex_val (CHR ''0'') = Some 0"
  by (simp add: hex_val_def)

lemma unescape_u_byte:
  assumes "byte_in 0 127 c"
  shows "unescape_u (CHR ''0'' # CHR ''0'' # hex_char (of_char c div 16) # hex_char (of_char c mod 16) # t) = Some ([c], t)"
proof -
  let ?b = "of_char c :: nat"
  have b: "?b < 128" using assms by (simp add: byte_in_def)
  then have "?b div 16 < 16" by simp
  then have "hex4 (CHR ''0'' # CHR ''0'' # hex_char (?b div 16) # hex_char (?b mod 16) # t) = Some (?b, t)"
    by (simp add: hex4_def)
  with b show ?thesis by (simp add: unescape_u_def encode_rune_def)
qed

lemma unescape_quote [simp]: "unescape (quote_char # t) = Some ([], t)"
  by (simp add: unescape.simps)

lemma unescape_u_eq:
  "unescape (backslash # CHR ''u'' # ds) =
     (case unescape_u ds of None \<Rightarrow> None | Some (r, rest) \<Rightarrow> map_option (apfst ((@) r)) (unescape rest))"
  by (subst unescape.simps) (simp add: quote_char_def backslash_def)

lemma unescape_simple:
  "simple_escape e = Some x \<Longrightarrow> unescape (backslash # e # ds) = map_option (apfst ((#) x)) (unescape ds)"
  by (subst unescape.simps) (auto simp: simple_escape_def quote_char_def backslash_def split: if_splits)

lemma unescape_plain:
  "c \<noteq> quote_char \<Longrightarrow> c \<noteq> backslash \<Longrightarrow> \<not> byte_in 0 31 c \<Longrightarrow> byte_in 0 127 c \<Longrightarrow>
     unescape (c # cs) = map_option (apfst ((#) c)) (unescape cs)"
  by (subst unescape.simps) simp

lemma unescape_rune:
  "\<not> byte_in 0 127 (hd s) \<Longrightarrow> rune_len s \<noteq> 0 \<Longrightarrow>
     unescape s = map_option (apfst ((@) (take (rune_len s) s))) (unescape (drop (rune_len s) s))"
  by (subst unescape.simps, cases s) (auto simp: quote_char_def backslash_def byte_in_def)

lemma append_Cons_fun: "(@) [c] = (#) c"
  by (simp add: fun_eq_iff)

lemma escape_ascii_cases:
  "(\<exists>x. escape_ascii c = [backslash, x] \<and> simple_escape x = Some c)
   \<or> escape_ascii c = [backslash, CHR ''u'', CHR ''0'', CHR ''0'', hex_char (of_char c div 16), hex_char (of_char c mod 16)]
   \<or> escape_ascii c = [c] \<and> c \<noteq> quote_char \<and> c \<noteq> backslash \<and> \<not> byte_in 0 31 c"
  by (simp add: escape_ascii_def simple_escape_def quote_char_def backslash_def)

lemma unescape_escape_ascii:
  assumes "byte_in 0 127 c"
  shows "unescape (escape_ascii c @ t) = map_option (apfst ((#) c)) (unescape t)"
proof -
  from escape_ascii_cases [of c] consider x where "escape_ascii c = [backslash, x]" "simple_escape x = Some c"
    | "escape_ascii c = [backslash, CHR ''u'', CHR ''0'', CHR ''0'', hex_char (of_char c div 16), hex_char (of_char c mod 16)]"
    | "escape_ascii c = [c]" "c \<noteq> quote_char" "c \<noteq> backslash" "\<not> byte_in 0 31 c" by blast
  then show ?thesis
  proof cases
    case 2
    then show ?thesis using unescape_u_byte [OF assms] by (simp add: unescape_u_eq append_Cons_fun)
  qed (use assms in \<open>auto simp: unescape_simple unescape_plain\<close>)
qed

lemma unescape_escape_rune:
  assumes "rune_len s = n" "n \<noteq> 0" "\<not> byte_in 0 127 (hd s)"
  shows "unescape (escape_rune (take n s) @ t) = map_option (apfst ((@) (take n s))) (unescape t)"
proof -
  obtain c l where s: "take n s = c # l" "hd s = c" using assms by (cases s; cases n) auto
  have len: "rune_len (take n s) = n" using assms(1,2) by (rule rune_len_take)
  have raw: "unescape (take n s @ t) = map_option (apfst ((@) (take n s))) (unescape t)"
  proof -
    have r: "rune_len (take n s @ t) = n" using rune_len_append len assms(2) by metis
    have "n \<le> length s" using assms(1) rune_len_le [of s] by simp
    then have "take n (take n s @ t) = take n s" "drop n (take n s @ t) = t" by simp_all
    with unescape_rune [of "take n s @ t", unfolded r] assms(2,3) s show ?thesis
      by (metis list.sel(1) append_Cons)
  qed
  have u: "unescape_u (CHR ''2'' # CHR ''0'' # CHR ''2'' # CHR ''8'' # t) = Some ([CHR 0xE2, CHR 0x80, CHR 0xA8], t)"
    "unescape_u (CHR ''2'' # CHR ''0'' # CHR ''2'' # CHR ''9'' # t) = Some ([CHR 0xE2, CHR 0x80, CHR 0xA9], t)"
    by (simp_all add: unescape_u_def hex4_def hex_val_def encode_rune_def char_of_def bit_0)
  with raw show ?thesis by (auto simp: escape_rune_def unescape_u_eq)
qed

lemma unescape_replacement:
  "unescape (backslash # ''ufffd'' @ t) = map_option (apfst ((@) replacement)) (unescape t)"
  by (simp add: unescape_u_eq unescape_u_def hex4_def hex_val_def encode_rune_def replacement_def char_of_def bit_0)

lemma unescape_escape: "unescape (escape s @ quote_char # rest) = Some (repair s, rest)"
proof (induction "length s" arbitrary: s rule: less_induct)
  case less
  show ?case
  proof (cases s)
    case (Cons c cs)
    have short: "unescape (escape cs @ quote_char # rest) = Some (repair cs, rest)" by (rule less.hyps) (simp add: Cons)
    have ih: "unescape (escape (drop (rune_len s) s) @ quote_char # rest) = Some (repair (drop (rune_len s) s), rest)" if "rune_len s \<noteq> 0"
      by (rule less.hyps) (use that Cons in simp)
    have rep: "repair s = (if rune_len s = 0 then replacement @ repair cs else take (rune_len s) s @ repair (drop (rune_len s) s))"
      by (subst repair.simps) (simp add: Cons)
    consider "byte_in 0 127 c" | "\<not> byte_in 0 127 c" "rune_len s = 0" | "\<not> byte_in 0 127 c" "rune_len s \<noteq> 0" by blast
    then show ?thesis
    proof cases
      case 1
      then have "rune_len s = 1" by (simp add: Cons rune_len_ascii)
      with 1 short rep show ?thesis by (simp add: Cons escape.simps [of "c # cs"] unescape_escape_ascii)
    next
      case 2
      then have "escape s = backslash # ''ufffd'' @ escape cs" by (subst escape.simps) (simp add: Cons)
      with short rep 2(2) unescape_replacement [of "escape cs @ quote_char # rest"] show ?thesis by simp
    next
      case 3
      then have "escape s = escape_rune (take (rune_len s) s) @ escape (drop (rune_len s) s)"
        by (subst escape.simps) (simp add: Cons)
      with unescape_escape_rune [OF refl 3(2)] 3 Cons ih rep show ?thesis by simp
    qed
  qed (simp add: escape.simps [of "[]"] repair.simps)
qed

lemma ascii_valid_utf8 [wire_eval]: "list_all (byte_in 0 127) s \<Longrightarrow> valid_utf8 s"
  by (induction s) (simp_all add: valid_utf8.simps rune_len_ascii)

section \<open>Values\<close>

datatype json =
    JNull
  | JBool bool
  | JNum string
  | JStr string
  | JArr "json list"
  | JObj "(string \<times> json) list"

text \<open>\<^verbatim>\<open>Marshal\<close> prints compactly; an array or object is its elements separated by commas.\<close>

fun commas :: "string list \<Rightarrow> string" where
  "commas [] = []"
| "commas [x] = x"
| "commas (x # y # ys) = x @ CHR '','' # commas (y # ys)"

primrec print_json :: "json \<Rightarrow> string" where
  "print_json JNull = ''null''"
| "print_json (JBool b) = (if b then ''true'' else ''false'')"
| "print_json (JNum n) = n"
| "print_json (JStr s) = quote s"
| "print_json (JArr js) = CHR ''['' # commas (map print_json js) @ '']''"
| "print_json (JObj ms) = CHR ''{'' # commas (map (\<lambda>(k, v). quote k @ CHR '':'' # v) (map (map_prod id print_json) ms)) @ ''}''"

section \<open>Parsing\<close>

definition is_ws :: "char \<Rightarrow> bool" where
  "is_ws c \<longleftrightarrow> c = CHR '' '' \<or> c = CHR 0x09 \<or> c = CHR 0x0A \<or> c = CHR 0x0D"

definition skip_ws :: "string \<Rightarrow> string" where
  "skip_ws s = dropWhile is_ws s"

definition is_digit :: "char \<Rightarrow> bool" where
  "is_digit c \<longleftrightarrow> byte_in 48 57 c"

definition scan_exp :: "string \<Rightarrow> string \<Rightarrow> (string \<times> string) option" where
  "scan_exp acc s = (case s of
     c # t \<Rightarrow>
       if c = CHR ''e'' \<or> c = CHR ''E'' then
         (let (sg, u) = (case t of x # u \<Rightarrow> if x = CHR ''+'' \<or> x = CHR ''-'' then ([x], u) else ([], t) | [] \<Rightarrow> ([], [])) in
          if takeWhile is_digit u = [] then None
          else Some (acc @ [c] @ sg @ takeWhile is_digit u, dropWhile is_digit u))
       else Some (acc, s)
   | [] \<Rightarrow> Some (acc, s))"

definition scan_frac :: "string \<Rightarrow> string \<Rightarrow> (string \<times> string) option" where
  "scan_frac acc s = (case s of
     c # t \<Rightarrow>
       if c = CHR ''.'' then
         (if takeWhile is_digit t = [] then None
          else scan_exp (acc @ [c] @ takeWhile is_digit t) (dropWhile is_digit t))
       else scan_exp acc s
   | [] \<Rightarrow> Some (acc, s))"

definition scan_number :: "string \<Rightarrow> (string \<times> string) option" where
  "scan_number s =
     (let (neg, t) = (case s of c # u \<Rightarrow> if c = CHR ''-'' then ([c], u) else ([], s) | [] \<Rightarrow> ([], [])) in
      case t of
        [] \<Rightarrow> None
      | d # u \<Rightarrow>
          if d = CHR ''0'' then scan_frac (neg @ [d]) u
          else if is_digit d then scan_frac (neg @ takeWhile is_digit t) (dropWhile is_digit t)
          else None)"

definition expect :: "string \<Rightarrow> json \<Rightarrow> string \<Rightarrow> (json \<times> string) option" where
  "expect w j s = (if take (length w) s = w then Some (j, drop (length w) s) else None)"

text \<open>
  One value, and what follows it. \<open>d\<close> is how many levels of nesting are still allowed; the fuel
  bounds the recursion, each step of which consumes a character, so the length of the text is
  enough. The elements and members are parsed after the opening bracket, which is known not to
  be followed by the closing one.
\<close>

fun parse_value :: "nat \<Rightarrow> nat \<Rightarrow> string \<Rightarrow> (json \<times> string) option"
and parse_elems :: "nat \<Rightarrow> nat \<Rightarrow> string \<Rightarrow> (json list \<times> string) option"
and parse_members :: "nat \<Rightarrow> nat \<Rightarrow> string \<Rightarrow> ((string \<times> json) list \<times> string) option" where
  "parse_value 0 d s = None"
| "parse_value (Suc f) d s = (case skip_ws s of
     [] \<Rightarrow> None
   | c # cs \<Rightarrow>
      if c = quote_char then map_option (apfst JStr) (unescape cs)
      else if c = CHR ''['' then
        (if d = 0 then None
         else case skip_ws cs of
                x # rest \<Rightarrow> if x = CHR '']'' then Some (JArr [], rest) else map_option (apfst JArr) (parse_elems f (d - 1) cs)
              | [] \<Rightarrow> None)
      else if c = CHR ''{'' then
        (if d = 0 then None
         else case skip_ws cs of
                x # rest \<Rightarrow> if x = CHR ''}'' then Some (JObj [], rest) else map_option (apfst JObj) (parse_members f (d - 1) cs)
              | [] \<Rightarrow> None)
      else if c = CHR ''t'' then expect ''true'' (JBool True) (c # cs)
      else if c = CHR ''f'' then expect ''false'' (JBool False) (c # cs)
      else if c = CHR ''n'' then expect ''null'' JNull (c # cs)
      else map_option (apfst JNum) (scan_number (c # cs)))"
| "parse_elems 0 d s = None"
| "parse_elems (Suc f) d s = (case parse_value f d s of
     None \<Rightarrow> None
   | Some (j, rest) \<Rightarrow>
      (case skip_ws rest of
         x # rest' \<Rightarrow>
           if x = CHR '']'' then Some ([j], rest')
           else if x = CHR '','' then map_option (apfst ((#) j)) (parse_elems f d rest') else None
       | [] \<Rightarrow> None))"
| "parse_members 0 d s = None"
| "parse_members (Suc f) d s = (case skip_ws s of
     [] \<Rightarrow> None
   | q # ks \<Rightarrow>
      if q \<noteq> quote_char then None
      else case unescape ks of
        None \<Rightarrow> None
      | Some (k, rest) \<Rightarrow>
         (case skip_ws rest of
            [] \<Rightarrow> None
          | x # vs \<Rightarrow>
             if x \<noteq> CHR '':'' then None
             else case parse_value f d vs of
               None \<Rightarrow> None
             | Some (j, rest') \<Rightarrow>
                (case skip_ws rest' of
                   y # rest'' \<Rightarrow>
                     if y = CHR ''}'' then Some ([(k, j)], rest'')
                     else if y = CHR '','' then map_option (apfst ((#) (k, j))) (parse_members f d rest'') else None
                 | [] \<Rightarrow> None)))"

definition max_nesting :: nat where "max_nesting = 10000"

text \<open>
  \<^verbatim>\<open>json.Unmarshal\<close> wants one value and nothing but white space after it; \<^verbatim>\<open>Decoder.Decode\<close> reads the
  first value of the stream.
\<close>

definition parse_first :: "string \<Rightarrow> json option" where
  "parse_first s = map_option fst (parse_value (3 * length s + 3) max_nesting s)"

definition parse_all :: "string \<Rightarrow> json option" where
  "parse_all s = (case parse_value (3 * length s + 3) max_nesting s of
     Some (j, rest) \<Rightarrow> if skip_ws rest = [] then Some j else None
   | None \<Rightarrow> None)"

section \<open>The fuel is enough\<close>

lemma skip_ws_le: "length (skip_ws s) \<le> length s"
  by (simp add: skip_ws_def length_dropWhile_le)

lemma skip_ws_shorter: "skip_ws s = c # cs \<Longrightarrow> length cs < length s"
  using skip_ws_le [of s] by simp

lemma unescape_shorter: "unescape s = Some (t, rest) \<Longrightarrow> length rest < length s"
proof (induction "length s" arbitrary: s t rule: less_induct)
  case less
  show ?case
  proof (cases s)
    case (Cons c cs)
    have "rest = cs \<or> (\<exists>u x. unescape u = Some (x, rest) \<and> length u < length s)"
      using less.prems rune_len_le [of s]
      by (subst (asm) unescape.simps)
        (force simp: Cons split: if_splits list.splits option.splits dest!: unescape_u_shorter)
    with less.hyps show ?thesis by (fastforce simp: Cons)
  qed (use less.prems in \<open>simp add: unescape.simps [of "[]"]\<close>)
qed

lemma dropWhile_shorter: "takeWhile P u \<noteq> [] \<Longrightarrow> length (dropWhile P u) < length u"
  by (cases u) (auto simp: le_imp_less_Suc length_dropWhile_le split: if_splits)

lemma scan_exp_le: "scan_exp acc s = Some (n, rest) \<Longrightarrow> length rest \<le> length s"
  using length_dropWhile_le [of is_digit "tl s"] length_dropWhile_le [of is_digit "tl (tl s)"]
  by (auto simp: scan_exp_def Let_def split: list.splits if_splits prod.splits)

lemma scan_frac_le: "scan_frac acc s = Some (n, rest) \<Longrightarrow> length rest \<le> length s"
  using length_dropWhile_le [of is_digit "tl s"]
  by (auto simp: scan_frac_def split: list.splits if_splits dest!: scan_exp_le)

lemma scan_number_shorter: "scan_number s = Some (n, rest) \<Longrightarrow> length rest < length s"
  using length_dropWhile_le [of is_digit "tl s"] length_dropWhile_le [of is_digit "tl (tl s)"]
  by (auto simp: scan_number_def Let_def split: list.splits if_splits prod.splits dest!: scan_frac_le)

lemma parse_shorter:
  "parse_value f d s = Some (j, rest) \<Longrightarrow> length rest < length s"
  "parse_elems f d s = Some (js, rest) \<Longrightarrow> length rest < length s"
  "parse_members f d s = Some (ms, rest) \<Longrightarrow> length rest < length s"
proof (induction f d s and f d s and f d s arbitrary: j rest and js rest and ms rest
    rule: parse_value_parse_elems_parse_members.induct)
  case (2 f d s)
  then show ?case
    by (fastforce simp: expect_def split: list.splits if_splits
        dest: skip_ws_shorter unescape_shorter scan_number_shorter)
next
  case (4 f d s)
  then show ?case
    by (fastforce split: list.splits if_splits option.splits dest!: skip_ws_shorter)
next
  case (6 f d s)
  then show ?case
    by (fastforce split: list.splits if_splits option.splits dest!: skip_ws_shorter unescape_shorter)
qed simp_all

end
