(* ===== verification/Json_Roundtrip.thy ===== *)
theory Json_Roundtrip
  imports Json
begin

text \<open>
  What \<^verbatim>\<open>Marshal\<close> prints, \<^verbatim>\<open>Unmarshal\<close> reads back: the parser inverts the printer on every value whose
  numbers are integers and whose nesting is within the limit, up to the repair of bytes that are not UTF-8;
  exactly, if all strings are UTF-8.
\<close>

section \<open>More fuel changes nothing\<close>

lemma parse_fuel:
  "2 * length s + 1 \<le> f \<Longrightarrow> parse_value (f + n) d s = parse_value f d s"
  "2 * length s + 2 \<le> f \<Longrightarrow> parse_elems (f + n) d s = parse_elems f d s"
  "2 * length s + 2 \<le> f \<Longrightarrow> parse_members (f + n) d s = parse_members f d s"
proof (induction f d s and f d s and f d s rule: parse_value_parse_elems_parse_members.induct)
  case (2 f d s)
  have "2 * length cs + 2 \<le> f" if "skip_ws s = c # cs" for c cs
    using skip_ws_shorter [OF that] "2.prems" by simp
  then show ?case using 2(1,2)
    by (auto split: list.splits)
next
  case (4 f d s)
  then have v: "parse_value (f + n) d s = parse_value f d s" by simp
  have "parse_elems (f + n) d rest' = parse_elems f d rest'"
    if "parse_value f d s = Some (j, rest)" "skip_ws rest = x # rest'" "x \<noteq> CHR '']''" "x = CHR '',''" for j rest x rest'
    using 4(2) [OF that(1) refl that(2-4)] parse_shorter(1) [OF that(1)] skip_ws_shorter [OF that(2)] "4.prems" by simp
  then show ?case using v by (auto split: list.splits option.splits)
next
  case (6 f d s)
  have v: "parse_value (f + n) d vs = parse_value f d vs"
    if "skip_ws s = q # ks" "q = quote_char" "unescape ks = Some (k, rest)" "skip_ws rest = x # vs" "x = CHR '':''" for q ks k rest x vs
    using 6(1) [OF that(1) _ that(3) refl that(4)] that(2,5) skip_ws_shorter [OF that(1)] unescape_shorter [OF that(3)]
      skip_ws_shorter [OF that(4)] "6.prems" by simp
  have m: "parse_members (f + n) d rest'' = parse_members f d rest''"
    if "skip_ws s = q # ks" "q = quote_char" "unescape ks = Some (k, rest)" "skip_ws rest = x # vs" "x = CHR '':''"
      "parse_value f d vs = Some (j, rest')" "skip_ws rest' = y # rest''" "y = CHR '',''" for q ks k rest x vs j rest' y rest''
    using 6(2) [OF that(1) _ that(3) refl that(4) _ that(6) refl that(7)] that(2,5,8) skip_ws_shorter [OF that(1)]
      unescape_shorter [OF that(3)] skip_ws_shorter [OF that(4)] parse_shorter(1) [OF that(6)] skip_ws_shorter [OF that(7)]
      "6.prems" by simp
  show ?case using v m by (auto split: list.splits option.splits)
qed simp_all

section \<open>The parser inverts the printer\<close>

primrec json_depth :: "json \<Rightarrow> nat" where
  "json_depth JNull = 0"
| "json_depth (JBool b) = 0"
| "json_depth (JNum n) = 0"
| "json_depth (JStr s) = 0"
| "json_depth (JArr js) = Suc (foldr max (map json_depth js) 0)"
| "json_depth (JObj ms) = Suc (foldr max (map snd (map (map_prod id json_depth) ms)) 0)"

primrec json_ok :: "json \<Rightarrow> bool" where
  "json_ok JNull = True"
| "json_ok (JBool b) = True"
| "json_ok (JNum n) = (itoa (fst (atoi n)) = n)"
| "json_ok (JStr s) = valid_utf8 s"
| "json_ok (JArr js) = list_all id (map json_ok js)"
| "json_ok (JObj ms) = list_all (\<lambda>(k, ok). valid_utf8 k \<and> ok) (map (map_prod id json_ok) ms)"

text \<open>Values whose numbers are integers, and what is left of their strings.\<close>

primrec json_ints :: "json \<Rightarrow> bool" where
  "json_ints JNull = True"
| "json_ints (JBool b) = True"
| "json_ints (JNum n) = (itoa (fst (atoi n)) = n)"
| "json_ints (JStr s) = True"
| "json_ints (JArr js) = list_all id (map json_ints js)"
| "json_ints (JObj ms) = list_all (\<lambda>(k, ok). ok) (map (map_prod id json_ints) ms)"

primrec repair_json :: "json \<Rightarrow> json" where
  "repair_json JNull = JNull"
| "repair_json (JBool b) = JBool b"
| "repair_json (JNum n) = JNum n"
| "repair_json (JStr s) = JStr (repair s)"
| "repair_json (JArr js) = JArr (map repair_json js)"
| "repair_json (JObj ms) = JObj (map (map_prod repair id) (map (map_prod id repair_json) ms))"

abbreviation repair_member :: "string \<times> json \<Rightarrow> string \<times> json" where
  "repair_member kj \<equiv> (repair (fst kj), repair_json (snd kj))"

lemma repair_json_obj: "repair_json (JObj ms) = JObj (map repair_member ms)"
  by (simp add: comp_def map_prod_def case_prod_beta)

lemma json_ok_ints: "json_ok j \<Longrightarrow> json_ints j"
  by (induction j) (fastforce simp: list_all_iff Basic_BNFs.snds.simps)+

lemma json_ok_repair: "json_ok j \<Longrightarrow> repair_json j = j"
proof (induction j)
  case (JArr js)
  then have "\<forall>j \<in> set js. repair_json j = j" by (auto simp: list_all_iff)
  then show ?case by (simp add: map_idI)
next
  case (JObj ms)
  have "repair_member kj = kj" if "kj \<in> set ms" for kj
    using JObj that by (cases kj) (fastforce simp: list_all_iff repair_valid Basic_BNFs.snds.simps)
  then have "map repair_member ms = ms" by (simp add: map_idI)
  then show ?case by (simp only: repair_json_obj)
qed (simp_all add: repair_valid)

text \<open>What may follow a number without being read as part of it.\<close>

definition ends_number :: "string \<Rightarrow> bool" where
  "ends_number s \<longleftrightarrow> (case s of [] \<Rightarrow> True | c # _ \<Rightarrow> \<not> is_digit c \<and> c \<noteq> CHR ''.'' \<and> c \<noteq> CHR ''e'' \<and> c \<noteq> CHR ''E'')"

lemma is_digit_digit_val: "is_digit c \<longleftrightarrow> digit_val c \<noteq> None"
  by (simp add: is_digit_def byte_in_def digit_val_def Let_def)

lemma scan_frac_end: "ends_number rest \<Longrightarrow> scan_frac acc rest = Some (acc, rest)"
  by (auto simp: scan_frac_def scan_exp_def ends_number_def split: list.splits)

lemma digits_hd_0: "hd (digits n) = CHR ''0'' \<Longrightarrow> n = 0"
proof (induction n rule: digits.induct)
  case (1 n)
  show ?case
  proof (cases "n < 10")
    case True
    with "1.prems" have "digit_char n = CHR ''0''" by (simp add: digits.simps [of n])
    with digit_val_digit_char [OF True] show ?thesis by (simp add: digit_val_def)
  next
    case False
    with "1.prems" have "hd (digits (n div 10)) = CHR ''0''" by (simp add: digits.simps [of n])
    with False "1.IH" show ?thesis by simp
  qed
qed

lemma span_digits:
  assumes "ends_number rest"
  shows "takeWhile is_digit (digits n @ rest) = digits n" "dropWhile is_digit (digits n @ rest) = rest"
proof -
  have all: "\<forall>c \<in> set (digits n). is_digit c" using digits_are_digits by (auto simp: is_digit_digit_val)
  have "takeWhile is_digit rest = []" "dropWhile is_digit rest = rest"
    using assms by (auto simp: ends_number_def split: list.splits)
  with all show "takeWhile is_digit (digits n @ rest) = digits n" "dropWhile is_digit (digits n @ rest) = rest"
    by simp_all
qed

lemma scan_digits:
  assumes "ends_number rest"
  shows "\<exists>d u. digits n @ rest = d # u \<and> d \<noteq> CHR ''-''
    \<and> (if d = CHR ''0'' then scan_frac (neg @ [d]) u
       else if is_digit d then scan_frac (neg @ takeWhile is_digit (d # u)) (dropWhile is_digit (d # u)) else None)
      = Some (neg @ digits n, rest)"
proof -
  obtain d v where dv: "digits n = d # v" by (cases "digits n") auto
  then have dig: "is_digit d" using digits_are_digits [of d n] by (simp add: is_digit_digit_val)
  show ?thesis
  proof (cases "d = CHR ''0''")
    case True
    then have "n = 0" using digits_hd_0 [of n] dv by simp
    with dv have "v = []" by (simp add: digits.simps [of 0])
    with True dv assms show ?thesis by (simp add: scan_frac_end)
  next
    case False
    moreover have "d \<noteq> CHR ''-''" using dig by (auto simp: is_digit_def byte_in_def)
    ultimately show ?thesis using span_digits [OF assms, of n] dig dv assms by (simp add: scan_frac_end)
  qed
qed

lemma scan_number_itoa:
  assumes "ends_number rest"
  shows "scan_number (itoa i @ rest) = Some (itoa i, rest)"
proof (cases "i < 0")
  case True
  obtain d u where du: "digits (nat (- i)) @ rest = d # u"
    "(if d = CHR ''0'' then scan_frac ([CHR ''-''] @ [d]) u
       else if is_digit d then scan_frac ([CHR ''-''] @ takeWhile is_digit (d # u)) (dropWhile is_digit (d # u)) else None)
      = Some ([CHR ''-''] @ digits (nat (- i)), rest)"
    using scan_digits [OF assms, of "nat (- i)" "[CHR ''-'']"] by blast
  with True show ?thesis by (simp add: scan_number_def itoa_def Let_def)
next
  case False
  obtain d u where du: "digits (nat i) @ rest = d # u" "d \<noteq> CHR ''-''"
    "(if d = CHR ''0'' then scan_frac ([] @ [d]) u
       else if is_digit d then scan_frac ([] @ takeWhile is_digit (d # u)) (dropWhile is_digit (d # u)) else None)
      = Some ([] @ digits (nat i), rest)"
    using scan_digits [OF assms, of "nat i" "[]"] by blast
  with False show ?thesis by (simp add: scan_number_def itoa_def Let_def)
qed

lemma parse_itoa_hd: "\<exists>c cs. itoa i = c # cs \<and> (is_digit c \<or> c = CHR ''-'')"
proof (cases "i < 0")
  case False
  obtain d v where dv: "digits (nat i) = d # v" by (cases "digits (nat i)") auto
  then have "is_digit d" using digits_are_digits [of d "nat i"] by (simp add: is_digit_digit_val)
  with False dv show ?thesis by (simp add: itoa_def)
qed (simp add: itoa_def)

definition value_start :: "string \<Rightarrow> bool" where
  "value_start s \<longleftrightarrow> (\<exists>c cs. s = c # cs \<and> \<not> is_ws c \<and> c \<noteq> CHR '']'' \<and> c \<noteq> CHR ''}'')"

lemma value_start_append: "value_start s \<Longrightarrow> value_start (s @ t)"
  by (auto simp: value_start_def)

lemma value_start_skip: "value_start s \<Longrightarrow> skip_ws s = s"
  by (auto simp: value_start_def skip_ws_def)

lemma print_json_start: "json_ints j \<Longrightarrow> value_start (print_json j)"
proof (cases j)
  case (JNum n)
  assume "json_ints j"
  with JNum have "n = itoa (fst (atoi n))" by simp
  with parse_itoa_hd [of "fst (atoi n)"] obtain c cs where "n = c # cs" "is_digit c \<or> c = CHR ''-''" by auto
  with JNum show ?thesis by (auto simp: value_start_def is_ws_def is_digit_def byte_in_def)
qed (auto simp: value_start_def quote_def quote_char_def is_ws_def)

definition parses :: "nat \<Rightarrow> json \<Rightarrow> bool" where
  "parses d j \<longleftrightarrow> (\<forall>rest. ends_number rest \<longrightarrow> (\<exists>n. \<forall>f \<ge> n. parse_value f d (print_json j @ rest) = Some (repair_json j, rest)))"

lemma parsesI: "(\<And>f rest. ends_number rest \<Longrightarrow> parse_value (Suc f) d (print_json j @ rest) = Some (repair_json j, rest)) \<Longrightarrow> parses d j"
  unfolding parses_def by (metis Suc_le_D)

lemma ends_number_simps [simp]: "ends_number (CHR '','' # s)" "ends_number (CHR '']'' # s)" "ends_number (CHR ''}'' # s)"
  "ends_number []" "ends_number (CHR 0x0A # s)"
  by (simp_all add: ends_number_def is_digit_def byte_in_def)

lemma parse_elems_print:
  assumes "js \<noteq> []" "\<forall>j \<in> set js. parses d j"
  shows "\<exists>n. \<forall>f \<ge> n. parse_elems f d (commas (map print_json js) @ CHR '']'' # rest) = Some (map repair_json js, rest)"
  using assms
proof (induction js rule: induct_list012)
  case (2 j)
  then obtain n where n: "\<forall>f \<ge> n. parse_value f d (print_json j @ CHR '']'' # rest) = Some (repair_json j, CHR '']'' # rest)"
    by (fastforce simp: parses_def)
  show ?case
    by (rule exI [of _ "Suc n"]) (use n in \<open>auto simp: Suc_le_eq dest!: less_imp_Suc_add simp: skip_ws_def is_ws_def\<close>)
next
  case (3 j k js)
  let ?tail = "commas (map print_json (k # js)) @ CHR '']'' # rest"
  obtain m where m: "\<forall>f \<ge> m. parse_elems f d ?tail = Some (map repair_json (k # js), rest)"
    using "3.IH"(2) "3.prems" by auto
  obtain n where n: "\<forall>f \<ge> n. parse_value f d (print_json j @ CHR '','' # ?tail) = Some (repair_json j, CHR '','' # ?tail)"
    using "3.prems" by (fastforce simp: parses_def)
  show ?case
  proof (intro exI allI impI)
    fix f assume f: "Suc (m + n) \<le> f"
    then obtain g where g: "f = Suc g" "m \<le> g" "n \<le> g" by (cases f) auto
    with m n show "parse_elems f d (commas (map print_json (j # k # js)) @ CHR '']'' # rest) = Some (map repair_json (j # k # js), rest)"
      by (simp add: skip_ws_def is_ws_def)
  qed
qed simp

abbreviation print_member :: "string \<times> json \<Rightarrow> string" where
  "print_member kv \<equiv> quote (fst kv) @ CHR '':'' # print_json (snd kv)"

lemma parse_member_step:
  assumes "parse_value f d (print_json j @ rest) = Some (repair_json j, rest)"
  shows "parse_members (Suc f) d (print_member (k, j) @ rest) =
    (case skip_ws rest of
       y # rest'' \<Rightarrow>
         if y = CHR ''}'' then Some ([(repair k, repair_json j)], rest'')
         else if y = CHR '','' then map_option (apfst ((#) (repair k, repair_json j))) (parse_members f d rest'') else None
     | [] \<Rightarrow> None)"
  using assms unescape_escape [of k "CHR '':'' # print_json j @ rest"]
  by (simp add: quote_def skip_ws_def is_ws_def quote_char_def)

lemma parse_members_print:
  assumes "ms \<noteq> []" "\<forall>(k, j) \<in> set ms. parses d j"
  shows "\<exists>n. \<forall>f \<ge> n. parse_members f d (commas (map print_member ms) @ CHR ''}'' # rest) = Some (map repair_member ms, rest)"
  using assms
proof (induction ms rule: induct_list012)
  case (2 kj)
  obtain k j where kj: "kj = (k, j)" by fastforce
  then obtain n where n: "\<forall>f \<ge> n. parse_value f d (print_json j @ CHR ''}'' # rest) = Some (repair_json j, CHR ''}'' # rest)"
    using "2.prems" by (fastforce simp: parses_def)
  show ?case
  proof (intro exI allI impI)
    fix f assume "Suc n \<le> f"
    then obtain g where "f = Suc g" "n \<le> g" by (cases f) auto
    with n "2.prems" parse_member_step [of g d j "CHR ''}'' # rest" k]
    show "parse_members f d (commas (map print_member [kj]) @ CHR ''}'' # rest) = Some (map repair_member [kj], rest)"
      by (simp add: kj skip_ws_def is_ws_def)
  qed
next
  case (3 kj kj' ms)
  obtain k j where kj: "kj = (k, j)" by fastforce
  let ?tail = "commas (map print_member (kj' # ms)) @ CHR ''}'' # rest"
  obtain m where m: "\<forall>f \<ge> m. parse_members f d ?tail = Some (map repair_member (kj' # ms), rest)"
    using "3.IH"(2) "3.prems" by auto
  obtain n where n: "\<forall>f \<ge> n. parse_value f d (print_json j @ CHR '','' # ?tail) = Some (repair_json j, CHR '','' # ?tail)"
    using "3.prems" by (fastforce simp: parses_def kj)
  show ?case
  proof (intro exI allI impI)
    fix f assume "Suc (m + n) \<le> f"
    then obtain g where "f = Suc g" "m \<le> g" "n \<le> g" by (cases f) auto
    with m n "3.prems" parse_member_step [of g d j "CHR '','' # ?tail" k]
    show "parse_members f d (commas (map print_member (kj # kj' # ms)) @ CHR ''}'' # rest) = Some (map repair_member (kj # kj' # ms), rest)"
      by (simp add: kj skip_ws_def is_ws_def)
  qed
qed simp

lemma le_foldr_max: "x \<in> set xs \<Longrightarrow> x \<le> foldr max xs (0::nat)"
  by (induction xs) auto

lemma parse_value_arr:
  assumes "value_start s" "parse_elems f d s = Some (js, rest)"
  shows "parse_value (Suc f) (Suc d) (CHR ''['' # s) = Some (JArr js, rest)"
  using assms value_start_skip [OF assms(1)] by (auto simp: value_start_def skip_ws_def is_ws_def quote_char_def)

lemma parse_value_obj:
  assumes "value_start s" "parse_members f d s = Some (ms, rest)"
  shows "parse_value (Suc f) (Suc d) (CHR ''{'' # s) = Some (JObj ms, rest)"
  using assms value_start_skip [OF assms(1)] by (auto simp: value_start_def skip_ws_def is_ws_def quote_char_def)

lemma parse_value_num:
  assumes "is_digit c \<or> c = CHR ''-''" "scan_number (c # cs) = Some (n, rest)"
  shows "parse_value (Suc f) d (c # cs) = Some (JNum n, rest)"
proof -
  have "c \<noteq> quote_char" "c \<noteq> CHR ''[''" "c \<noteq> CHR ''{''" "c \<noteq> CHR ''t''" "c \<noteq> CHR ''f''" "c \<noteq> CHR ''n''" "\<not> is_ws c"
    using assms(1) by (auto simp: is_digit_def byte_in_def quote_char_def is_ws_def)
  with assms(2) show ?thesis by (simp add: skip_ws_def)
qed

lemma commas_start: "xs \<noteq> [] \<Longrightarrow> value_start (hd xs) \<Longrightarrow> value_start (commas xs @ t)"
  by (cases xs rule: commas.cases) (auto intro: value_start_append)

lemma print_json_obj: "print_json (JObj ms) = CHR ''{'' # commas (map print_member ms) @ ''}''"
  by (simp add: comp_def case_prod_beta)

lemma parses_num:
  assumes "n = itoa (fst (atoi n))"
  shows "parses d (JNum n)"
proof (rule parsesI)
  fix f and rest :: string
  assume "ends_number rest"
  then have "scan_number (n @ rest) = Some (n, rest)" using scan_number_itoa assms by metis
  moreover obtain c cs where c: "itoa (fst (atoi n)) = c # cs" "is_digit c \<or> c = CHR ''-''" using parse_itoa_hd by blast
  moreover have "n @ rest = c # cs @ rest" using assms c(1) by (metis append_Cons)
  ultimately show "parse_value (Suc f) d (print_json (JNum n) @ rest) = Some (repair_json (JNum n), rest)"
    using parse_value_num [OF c(2)] by simp
qed

text \<open>A bracketed value parses with one more unit of fuel than what is between the brackets.\<close>

lemma parsesI_fuel:
  assumes "\<And>rest. \<exists>n. \<forall>f \<ge> n. parse_value (Suc f) d (print_json j @ rest) = Some (repair_json j, rest)"
  shows "parses d j"
  unfolding parses_def
proof (intro allI impI)
  fix rest
  obtain n where "\<And>f. n \<le> f \<Longrightarrow> parse_value (Suc f) d (print_json j @ rest) = Some (repair_json j, rest)" using assms by blast
  then have "parse_value f d (print_json j @ rest) = Some (repair_json j, rest)" if "Suc n \<le> f" for f using that by (cases f) auto
  then show "\<exists>n. \<forall>f \<ge> n. parse_value f d (print_json j @ rest) = Some (repair_json j, rest)" by blast
qed

lemma parses_arr:
  assumes "\<forall>j \<in> set js. json_ints j \<and> parses e j"
  shows "parses (Suc e) (JArr js)"
proof (cases "js = []")
  case True
  then show ?thesis by (intro parsesI) (simp add: skip_ws_def is_ws_def quote_char_def)
next
  case False
  then have st: "value_start (commas (map print_json js) @ CHR '']'' # rest)" for rest
    using assms by (intro commas_start) (auto simp: hd_map intro!: print_json_start)
  show ?thesis
  proof (rule parsesI_fuel)
    fix rest
    obtain n where "\<And>f. n \<le> f \<Longrightarrow> parse_elems f e (commas (map print_json js) @ CHR '']'' # rest) = Some (map repair_json js, rest)"
      using parse_elems_print [OF False, of e rest] assms by blast
    from parse_value_arr [OF st this] show "\<exists>n. \<forall>f \<ge> n. parse_value (Suc f) (Suc e) (print_json (JArr js) @ rest) = Some (repair_json (JArr js), rest)"
      by (intro exI [of _ n] allI impI) (simp only: print_json.simps repair_json.simps append_Cons append_Nil append_assoc)
  qed
qed

lemma parses_obj:
  assumes "\<forall>(k, j) \<in> set ms. parses e j"
  shows "parses (Suc e) (JObj ms)"
proof (cases ms)
  case Nil
  then show ?thesis by (intro parsesI) (simp add: skip_ws_def is_ws_def quote_char_def)
next
  case (Cons kj ms')
  then have st: "value_start (commas (map print_member ms) @ CHR ''}'' # rest)" for rest
    by (intro commas_start) (auto simp: value_start_def quote_def quote_char_def is_ws_def)
  show ?thesis
  proof (rule parsesI_fuel)
    fix rest
    obtain n where "\<And>f. n \<le> f \<Longrightarrow> parse_members f e (commas (map print_member ms) @ CHR ''}'' # rest) = Some (map repair_member ms, rest)"
      using parse_members_print [OF _ assms, of rest] Cons by blast
    from parse_value_obj [OF st this] show "\<exists>n. \<forall>f \<ge> n. parse_value (Suc f) (Suc e) (print_json (JObj ms) @ rest) = Some (repair_json (JObj ms), rest)"
      by (intro exI [of _ n] allI impI) (simp only: print_json_obj repair_json_obj append_Cons append_Nil append_assoc)
  qed
qed

lemma parse_print: "json_ints j \<Longrightarrow> json_depth j \<le> d \<Longrightarrow> parses d j"
proof (induction j arbitrary: d)
  case (JNum n)
  then show ?case by (intro parses_num) simp
next
  case (JStr s)
  then show ?case
    by (intro parsesI) (simp add: quote_def skip_ws_def is_ws_def quote_char_def unescape_escape [unfolded quote_char_def])
next
  case (JArr js)
  then obtain e where d: "d = Suc e" by (cases d) auto
  have "json_depth j \<le> e" if "j \<in> set js" for j
    using JArr.prems(2) that le_foldr_max [of "json_depth j" "map json_depth js"] by (auto simp: d)
  with JArr.IH JArr.prems(1) show ?case unfolding d by (intro parses_arr) (auto simp: list_all_iff)
next
  case (JObj ms)
  then obtain e where d: "d = Suc e" by (cases d) auto
  have dep: "json_depth (snd kj) \<le> e" if "kj \<in> set ms" for kj
    using JObj.prems(2) that le_foldr_max [of "json_depth (snd kj)" "map snd (map (map_prod id json_depth) ms)"]
    by (auto simp: d image_image)
  have ok: "\<forall>(k, j) \<in> set ms. json_ints j"
    using JObj.prems(1) by (auto simp: list_all_iff)
  have "\<forall>(k, j) \<in> set ms. parses e j"
    using ok dep JObj.IH by (fastforce simp: Basic_BNFs.snds.simps)
  then show ?case unfolding d by (rule parses_obj)
qed (intro parsesI, simp add: skip_ws_def is_ws_def expect_def quote_char_def)+

lemma parse_enough: "parses d j \<Longrightarrow> ends_number rest \<Longrightarrow> 2 * length (print_json j @ rest) + 1 \<le> f \<Longrightarrow>
  parse_value f d (print_json j @ rest) = Some (repair_json j, rest)"
proof -
  assume p: "parses d j" and e: "ends_number rest" and f: "2 * length (print_json j @ rest) + 1 \<le> f"
  from p e obtain n where n: "\<forall>f \<ge> n. parse_value f d (print_json j @ rest) = Some (repair_json j, rest)" by (auto simp: parses_def)
  have "parse_value f d (print_json j @ rest) = parse_value (f + n) d (print_json j @ rest)"
    by (rule parse_fuel(1) [OF f, symmetric])
  with n show ?thesis by simp
qed

lemma parse_all_repairs: "json_ints j \<Longrightarrow> json_depth j \<le> max_nesting \<Longrightarrow> parse_all (print_json j) = Some (repair_json j)"
  using parse_enough [OF parse_print [of j max_nesting], of "[]" "3 * length (print_json j) + 3"]
  by (simp add: parse_all_def skip_ws_def)

lemma parse_all_print: "json_ok j \<Longrightarrow> json_depth j \<le> max_nesting \<Longrightarrow> parse_all (print_json j) = Some j"
  by (simp add: parse_all_repairs json_ok_ints json_ok_repair)

lemma parse_first_print: "json_ok j \<Longrightarrow> json_depth j \<le> max_nesting \<Longrightarrow> ends_number rest \<Longrightarrow> parse_first (print_json j @ rest) = Some j"
  using parse_enough [OF parse_print [of j max_nesting], of rest "3 * length (print_json j @ rest) + 3"]
  by (simp add: parse_first_def json_ok_ints json_ok_repair)

end
