(* ===== verification/Task.thy ===== *)
theory Task
  imports Json_Roundtrip
begin

text \<open>
  The payload of a migration task (\<^verbatim>\<open>internal/queue/task.go\<close>): how it is written into the asynq
  task as JSON and read back by the worker and by the API.
\<close>

section \<open>Decoding into structs\<close>

text \<open>
  \<^verbatim>\<open>encoding/json\<close> finds the field of a key by its exact name and otherwise by its folded name:
  upper case, where the long s and the Kelvin sign fold to ASCII letters.
\<close>

fun fold_name :: "string \<Rightarrow> string" where
  "fold_name [] = []"
| "fold_name (c # cs) =
     (if byte_in 97 122 c then char_of (of_char c - (32::nat)) # fold_name cs
      else if c = CHR 0xC5 \<and> take 1 cs = [CHR 0xBF] then CHR ''S'' # fold_name (drop 1 cs)
      else if c = CHR 0xE2 \<and> take 2 cs = [CHR 0x84, CHR 0xAA] then CHR ''K'' # fold_name (drop 2 cs)
      else c # fold_name cs)"

definition field_of :: "string list \<Rightarrow> string \<Rightarrow> string option" where
  "field_of names key =
     (if key \<in> set names then Some key else find (\<lambda>n. fold_name n = fold_name key) names)"

text \<open>
  Decoding one value into one field: \<^verbatim>\<open>null\<close> leaves the field as it is, a value of another type leaves
  it and makes \<^verbatim>\<open>Unmarshal\<close> return an error in the end.
\<close>

definition decode_string :: "json \<Rightarrow> string \<Rightarrow> string \<times> bool" where
  "decode_string v old = (case v of JStr s \<Rightarrow> (s, True) | JNull \<Rightarrow> (old, True) | _ \<Rightarrow> (old, False))"

definition decode_int :: "json \<Rightarrow> int \<Rightarrow> int \<times> bool" where
  "decode_int v old = (case v of
     JNum n \<Rightarrow> (case atoi n of (i, None) \<Rightarrow> (i, True) | _ \<Rightarrow> (old, False))
   | JNull \<Rightarrow> (old, True) | _ \<Rightarrow> (old, False))"

definition decode_bool :: "json \<Rightarrow> bool \<Rightarrow> bool \<times> bool" where
  "decode_bool v old = (case v of JBool b \<Rightarrow> (b, True) | JNull \<Rightarrow> (old, True) | _ \<Rightarrow> (old, False))"

definition json_err :: goerr where
  "json_err = errors_new ''json''"

section \<open>MigratePayload\<close>

record migrate_payload =
  mp_project_id :: string
  mp_tsdb_path :: string
  mp_cortex_url :: string
  mp_max_batch_bytes :: int
  mp_writer_concurrency :: int
  mp_dry_run :: bool

definition zero_payload :: migrate_payload where
  "zero_payload = \<lparr>mp_project_id = [], mp_tsdb_path = [], mp_cortex_url = [], mp_max_batch_bytes = 0,
     mp_writer_concurrency = 0, mp_dry_run = False\<rparr>"

definition payload_fields :: "string list" where
  "payload_fields = [''project_id'', ''tsdb_path'', ''cortex_url'', ''max_batch_bytes'', ''writer_concurrency'', ''dry_run'']"

definition payload_json :: "migrate_payload \<Rightarrow> json" where
  "payload_json p = JObj
     [(''project_id'', JStr (mp_project_id p)), (''tsdb_path'', JStr (mp_tsdb_path p)),
      (''cortex_url'', JStr (mp_cortex_url p)), (''max_batch_bytes'', JNum (itoa (mp_max_batch_bytes p))),
      (''writer_concurrency'', JNum (itoa (mp_writer_concurrency p))), (''dry_run'', JBool (mp_dry_run p))]"

definition set_payload_field :: "string \<Rightarrow> json \<Rightarrow> migrate_payload \<Rightarrow> migrate_payload \<times> bool" where
  "set_payload_field f v p =
     (if f = ''project_id'' then (let (x, ok) = decode_string v (mp_project_id p) in (p\<lparr>mp_project_id := x\<rparr>, ok))
      else if f = ''tsdb_path'' then (let (x, ok) = decode_string v (mp_tsdb_path p) in (p\<lparr>mp_tsdb_path := x\<rparr>, ok))
      else if f = ''cortex_url'' then (let (x, ok) = decode_string v (mp_cortex_url p) in (p\<lparr>mp_cortex_url := x\<rparr>, ok))
      else if f = ''max_batch_bytes'' then (let (x, ok) = decode_int v (mp_max_batch_bytes p) in (p\<lparr>mp_max_batch_bytes := x\<rparr>, ok))
      else if f = ''writer_concurrency'' then (let (x, ok) = decode_int v (mp_writer_concurrency p) in (p\<lparr>mp_writer_concurrency := x\<rparr>, ok))
      else (let (x, ok) = decode_bool v (mp_dry_run p) in (p\<lparr>mp_dry_run := x\<rparr>, ok)))"

fun decode_payload_members :: "(string \<times> json) list \<Rightarrow> migrate_payload \<Rightarrow> migrate_payload \<times> bool" where
  "decode_payload_members [] p = (p, True)"
| "decode_payload_members ((k, v) # ms) p =
     (let (p', ok) = (case field_of payload_fields k of None \<Rightarrow> (p, True) | Some f \<Rightarrow> set_payload_field f v p);
          (p'', ok') = decode_payload_members ms p'
      in (p'', ok \<and> ok'))"

definition unmarshal_payload :: "string \<Rightarrow> goerr + migrate_payload" where
  "unmarshal_payload data = (case parse_all data of
     None \<Rightarrow> Inl json_err
   | Some (JObj ms) \<Rightarrow> (let (p, ok) = decode_payload_members ms zero_payload in if ok then Inr p else Inl json_err)
   | Some JNull \<Rightarrow> Inr zero_payload
   | Some _ \<Rightarrow> Inl json_err)"

section \<open>Tasks\<close>

record asynq_task =
  task_type :: string
  task_payload :: string

definition type_migrate_tenant :: string where
  "type_migrate_tenant = ''migrate:tenant''"

text \<open>Marshalling a payload cannot fail: it holds strings, integers and a boolean only.\<close>

definition new_migrate_task :: "migrate_payload \<Rightarrow> asynq_task" where
  "new_migrate_task p = \<lparr>task_type = type_migrate_tenant, task_payload = print_json (payload_json p)\<rparr>"

definition parse_migrate_payload :: "asynq_task \<Rightarrow> goerr + migrate_payload" where
  "parse_migrate_payload t = (case unmarshal_payload (task_payload t) of
     Inl e \<Rightarrow> Inl (wrapf ''unmarshal migrate payload: '' e)
   | Inr p \<Rightarrow> if mp_project_id p = '''' then Inl (errors_new ''project_id is required'') else Inr p)"

section \<open>The payload survives the queue\<close>

definition payload_ok :: "migrate_payload \<Rightarrow> bool" where
  "payload_ok p \<longleftrightarrow> valid_utf8 (mp_project_id p) \<and> valid_utf8 (mp_tsdb_path p) \<and> valid_utf8 (mp_cortex_url p)
     \<and> is_int64 (mp_max_batch_bytes p) \<and> is_int64 (mp_writer_concurrency p)"

lemma payload_json_ok: "payload_ok p \<Longrightarrow> json_ok (payload_json p)"
  by (simp add: payload_ok_def payload_json_def atoi_itoa wire_eval)

lemma unmarshal_marshal: "payload_ok p \<Longrightarrow> unmarshal_payload (print_json (payload_json p)) = Inr p"
  using parse_all_print [OF payload_json_ok, of p]
  by (simp add: unmarshal_payload_def payload_json_def field_of_def payload_fields_def set_payload_field_def
      decode_string_def decode_int_def decode_bool_def atoi_itoa payload_ok_def max_nesting_def zero_payload_def)

text \<open>
  C25. A task read back by the worker has the payload it was created with, for every payload whose
  strings are UTF-8 and whose integers fit a Go int; an empty project id is rejected, nothing else is.
\<close>

theorem parse_new_task_roundtrip:
  assumes "payload_ok p"
  shows "parse_migrate_payload (new_migrate_task p) =
    (if mp_project_id p = '''' then Inl (errors_new ''project_id is required'') else Inr p)"
  using unmarshal_marshal [OF assms] by (simp add: parse_migrate_payload_def new_migrate_task_def)

theorem parse_new_task_roundtrip_witness:
  "parse_migrate_payload (new_migrate_task (zero_payload\<lparr>mp_project_id := ''a<b'', mp_max_batch_bytes := -5\<rparr>))
     = Inr (zero_payload\<lparr>mp_project_id := ''a<b'', mp_max_batch_bytes := -5\<rparr>)"
proof -
  have "payload_ok (zero_payload\<lparr>mp_project_id := ''a<b'', mp_max_batch_bytes := -5\<rparr>)"
    by (simp add: payload_ok_def zero_payload_def wire_eval)
  from parse_new_task_roundtrip [OF this] show ?thesis by simp
qed

end
