(* ===== verification/Redis.thy ===== *)
theory Redis
  imports Prelude
begin

text \<open>
  The Redis commands that the progress store issues, as an interface: \<open>redis_client\<close> is a record
  of the calls of \<^verbatim>\<open>go-redis\<close> it uses, and the locales state what the Redis documentation promises
  of them on the view of the server as hashes (a hash without fields does not exist). A failed
  write may or may not have been applied. \<open>mem_redis\<close> is an in-memory server that keeps the
  promises; it serves as the concrete instance.
\<close>

record 'w redis_client =
  rd_hset :: "ctx \<Rightarrow> string \<Rightarrow> fields \<Rightarrow> ('w, unit) call"
  rd_hgetall :: "ctx \<Rightarrow> string \<Rightarrow> ('w, fields) call"
  rd_del :: "ctx \<Rightarrow> string list \<Rightarrow> ('w, nat) call"
  rd_scan :: "ctx \<Rightarrow> nat \<Rightarrow> string \<Rightarrow> nat \<Rightarrow> ('w, string list \<times> nat) call"

type_synonym hashes = "string \<Rightarrow> string \<rightharpoonup> string"

definition hset_view :: "string \<Rightarrow> fields \<Rightarrow> hashes \<Rightarrow> hashes" where
  "hset_view k fs h = h(k := h k ++ map_of fs)"

definition del_view :: "string list \<Rightarrow> hashes \<Rightarrow> hashes" where
  "del_view ks h = (\<lambda>k. if k \<in> set ks then Map.empty else h k)"

text \<open>
  A full iteration of \<^verbatim>\<open>SCAN\<close>: it starts at cursor 0 and ends when the server returns cursor 0.
  \<open>ws\<close> are the server states at its calls, which reads and deletions may separate, and \<open>kss\<close> the
  keys each call returned.
\<close>

inductive read_or_del :: "'w redis_client \<Rightarrow> 'w \<Rightarrow> 'w \<Rightarrow> bool" for r where
  rd_refl: "read_or_del r w w"
| rd_read: "rd_hgetall r c k w = (x, w1) \<Longrightarrow> read_or_del r w1 w2 \<Longrightarrow> read_or_del r w w2"
| rd_remove: "rd_del r c ks w = (y, w1) \<Longrightarrow> read_or_del r w1 w2 \<Longrightarrow> read_or_del r w w2"

fun scan_calls :: "'w redis_client \<Rightarrow> ctx \<Rightarrow> string \<Rightarrow> nat \<Rightarrow> nat \<Rightarrow> 'w list \<Rightarrow> string list list \<Rightarrow> bool" where
  "scan_calls r c pat n cur (w # ws) (ks # kss) \<longleftrightarrow>
     (\<exists>cur' w'. rd_scan r c cur pat n w = (Inr (ks, cur'), w')
        \<and> (if ws = [] then cur' = 0 \<and> kss = [] else cur' \<noteq> 0 \<and> read_or_del r w' (hd ws) \<and> scan_calls r c pat n cur' ws kss))"
| "scan_calls r c pat n cur _ _ \<longleftrightarrow> False"

text \<open>A pattern \<^verbatim>\<open>p*\<close> with a literal \<open>p\<close>, the only kind used, matches the keys that start with \<open>p\<close>.\<close>

definition glob :: "string \<Rightarrow> string" where
  "glob p = p @ ''*''"

locale redis_store =
  fixes r :: "'w redis_client" and view :: "'w \<Rightarrow> hashes"
  assumes hset_ok: "rd_hset r c k fs w = (Inr u, w') \<Longrightarrow> view w' = hset_view k fs (view w)"
    and hset_err: "rd_hset r c k fs w = (Inl e, w') \<Longrightarrow> view w' = view w \<or> view w' = hset_view k fs (view w)"
    and hgetall_ok: "rd_hgetall r c k w = (Inr vs, w') \<Longrightarrow> map_of vs = view w k \<and> view w' = view w"
    and hgetall_err: "rd_hgetall r c k w = (Inl e, w') \<Longrightarrow> view w' = view w"
    and del_ok: "rd_del r c ks w = (Inr n, w') \<Longrightarrow>
      n = card {k \<in> set ks. view w k \<noteq> Map.empty} \<and> view w' = del_view ks (view w)"
    and del_err: "rd_del r c ks w = (Inl e, w') \<Longrightarrow> view w' = view w \<or> view w' = del_view ks (view w)"
    and scan_ok: "rd_scan r c cur (glob p) n w = (Inr (ks, cur'), w') \<Longrightarrow>
      view w' = view w \<and> (\<forall>k \<in> set ks. prefix p k \<and> view w k \<noteq> Map.empty)"
    and scan_err: "rd_scan r c cur pat n w = (Inl e, w') \<Longrightarrow> view w' = view w"
    and scan_complete: "scan_calls r c (glob p) n 0 ws kss \<Longrightarrow> prefix p k \<Longrightarrow>
      (\<And>w. w \<in> set ws \<Longrightarrow> view w k \<noteq> Map.empty) \<Longrightarrow> \<exists>ks \<in> set kss. k \<in> set ks"

text \<open>
  A collection of bounded size: the iteration ends. \<open>rank w cur\<close> bounds the calls that remain from
  a cursor; reading and deleting do not raise it.
\<close>

locale redis_bounded = redis_store r view for r :: "'w redis_client" and view +
  fixes rank :: "'w \<Rightarrow> nat \<Rightarrow> nat"
  assumes scan_rank: "rd_scan r c cur pat n w = (Inr (ks, cur'), w') \<Longrightarrow> cur' \<noteq> 0 \<Longrightarrow> rank w' cur' < rank w cur"
    and hgetall_rank: "rd_hgetall r c k w = (x, w') \<Longrightarrow> rank w' cur \<le> rank w cur"
    and del_rank: "rd_del r c ks w = (y, w') \<Longrightarrow> rank w' cur \<le> rank w cur"

text \<open>A call under a context that is done fails and changes nothing.\<close>

locale redis_ctx = redis_store r view for r :: "'w redis_client" and view +
  assumes hset_done: "rd_hset r (Done e) k fs w = (x, w') \<Longrightarrow> isl x \<and> view w' = view w"

section \<open>An in-memory server\<close>

text \<open>While the server rehashes its table, \<^verbatim>\<open>SCAN\<close> may return a key more than once.\<close>

record mem_redis =
  mr_data :: "(string \<times> fields) list"
  mr_up :: bool
  mr_rehash :: bool

definition mem_view :: "mem_redis \<Rightarrow> hashes" where
  "mem_view w k = (case map_of (mr_data w) k of None \<Rightarrow> Map.empty | Some fs \<Rightarrow> map_of fs)"

definition conn_refused :: goerr where
  "conn_refused = errors_new ''dial tcp: connection refused''"

definition mem_fault :: "ctx \<Rightarrow> mem_redis \<Rightarrow> goerr option" where
  "mem_fault c w = (case c of Done e \<Rightarrow> Some e | Live \<Rightarrow> if mr_up w then None else Some conn_refused)"

definition mem_fields :: "mem_redis \<Rightarrow> string \<Rightarrow> fields" where
  "mem_fields w k = (case map_of (mr_data w) k of None \<Rightarrow> [] | Some fs \<Rightarrow> fs)"

definition scan_slots :: nat where "scan_slots = 4"

definition slot :: "string \<Rightarrow> nat" where
  "slot k = sum_list (map of_char k) mod scan_slots"

definition mem_hset :: "ctx \<Rightarrow> string \<Rightarrow> fields \<Rightarrow> (mem_redis, unit) call" where
  "mem_hset c k fs w = (case mem_fault c w of Some e \<Rightarrow> (Inl e, w)
     | None \<Rightarrow> (Inr (), w\<lparr>mr_data := (k, fs @ mem_fields w k) # filter (\<lambda>x. fst x \<noteq> k) (mr_data w)\<rparr>))"

definition mem_hgetall :: "ctx \<Rightarrow> string \<Rightarrow> (mem_redis, fields) call" where
  "mem_hgetall c k w = (case mem_fault c w of Some e \<Rightarrow> (Inl e, w) | None \<Rightarrow> (Inr (mem_fields w k), w))"

definition mem_del :: "ctx \<Rightarrow> string list \<Rightarrow> (mem_redis, nat) call" where
  "mem_del c ks w = (case mem_fault c w of Some e \<Rightarrow> (Inl e, w)
     | None \<Rightarrow> (Inr (length (filter (\<lambda>k. mem_fields w k \<noteq> []) (remdups ks))),
               w\<lparr>mr_data := filter (\<lambda>x. fst x \<notin> set ks) (mr_data w)\<rparr>))"

definition slot_keys :: "mem_redis \<Rightarrow> string \<Rightarrow> nat \<Rightarrow> string list" where
  "slot_keys w p cur = filter (\<lambda>k. slot k = cur \<and> prefix p k \<and> mem_fields w k \<noteq> []) (remdups (map fst (mr_data w)))"

definition mem_scan :: "ctx \<Rightarrow> nat \<Rightarrow> string \<Rightarrow> nat \<Rightarrow> (mem_redis, string list \<times> nat) call" where
  "mem_scan c cur pat n w = (case mem_fault c w of Some e \<Rightarrow> (Inl e, w)
     | None \<Rightarrow> (Inr (slot_keys w (butlast pat) cur @ (if mr_rehash w then slot_keys w (butlast pat) cur else []),
                if cur + 1 < scan_slots then cur + 1 else 0), w))"

definition mem_client :: "mem_redis redis_client" where
  "mem_client = \<lparr>rd_hset = mem_hset, rd_hgetall = mem_hgetall, rd_del = mem_del, rd_scan = mem_scan\<rparr>"

lemma mem_view_fields: "mem_view w k = map_of (mem_fields w k)"
  by (simp add: mem_view_def mem_fields_def split: option.splits)

lemma mem_fields_hset [simp]:
  "mem_fields (w\<lparr>mr_data := (k, fs) # filter (\<lambda>x. fst x \<noteq> k) (mr_data w)\<rparr>) k' = (if k' = k then fs else mem_fields w k')"
proof -
  have "k' \<noteq> k \<Longrightarrow> map_of (filter (\<lambda>x. fst x \<noteq> k) xs) k' = map_of xs k'" for xs :: "(string \<times> fields) list"
    by (induction xs) auto
  then show ?thesis by (simp add: mem_fields_def)
qed

lemma mem_fields_del [simp]:
  "mem_fields (w\<lparr>mr_data := filter (\<lambda>x. fst x \<notin> set ks) (mr_data w)\<rparr>) k = (if k \<in> set ks then [] else mem_fields w k)"
proof -
  have "map_of (filter (\<lambda>x. fst x \<notin> set ks) xs) k = (if k \<in> set ks then None else map_of xs k)" for xs :: "(string \<times> fields) list"
    by (induction xs) auto
  then show ?thesis by (simp add: mem_fields_def)
qed

lemma mem_scan_complete:
  assumes "scan_calls mem_client c (glob p) n cur ws kss" "prefix p k"
    "\<And>w. w \<in> set ws \<Longrightarrow> mem_view w k \<noteq> Map.empty" "cur \<le> slot k"
  shows "\<exists>ks \<in> set kss. k \<in> set ks"
  using assms
proof (induction ws arbitrary: cur kss)
  case (Cons w ws)
  obtain ks kss' where kss: "kss = ks # kss'" using Cons.prems(1) by (cases kss) auto
  have up: "mem_fault c w = None"
    using Cons.prems(1) by (auto simp: kss mem_client_def mem_scan_def split: option.splits)
  have present: "mem_fields w k \<noteq> []" using Cons.prems(3) [of w] by (simp add: mem_view_fields)
  then have dom: "k \<in> set (map fst (mr_data w))"
    by (auto simp: mem_fields_def split: option.splits dest: map_of_SomeD intro!: image_eqI)
  have scan: "set (slot_keys w p cur) \<subseteq> set ks"
    "if ws = [] then \<not> cur + 1 < scan_slots else scan_calls mem_client c (glob p) n (cur + 1) ws kss'"
    using Cons.prems(1) up by (auto simp: kss mem_client_def mem_scan_def glob_def split: if_splits)
  have lt: "slot k < scan_slots" by (simp add: slot_def scan_slots_def)
  show ?case
  proof (cases "slot k = cur")
    case True
    with dom present Cons.prems(2) show ?thesis using scan(1) by (auto simp: kss slot_keys_def)
  next
    case False
    with Cons.prems(4) lt scan(2) have "ws \<noteq> []" by (auto split: if_splits)
    with scan(2) have "scan_calls mem_client c (glob p) n (cur + 1) ws kss'" by simp
    moreover have "cur + 1 \<le> slot k" using False Cons.prems(4) by simp
    ultimately have "\<exists>ks \<in> set kss'. k \<in> set ks" using Cons.IH Cons.prems(2,3) by (metis list.set_intros(2))
    then show ?thesis by (simp add: kss)
  qed
qed simp

lemma mem_del_count:
  "length (filter (\<lambda>k. mem_fields w k \<noteq> []) (remdups ks)) = card {k \<in> set ks. mem_view w k \<noteq> Map.empty}"
proof -
  have "card (set (filter (\<lambda>k. mem_fields w k \<noteq> []) (remdups ks))) = length (filter (\<lambda>k. mem_fields w k \<noteq> []) (remdups ks))"
    by (rule distinct_card) simp
  moreover have "set (filter (\<lambda>k. mem_fields w k \<noteq> []) (remdups ks)) = {k \<in> set ks. mem_view w k \<noteq> Map.empty}"
    by (auto simp: mem_view_fields)
  ultimately show ?thesis by simp
qed

interpretation mem: redis_bounded mem_client mem_view "\<lambda>_ cur. scan_slots - cur"
proof
  fix p c n ws kss k
  assume "scan_calls mem_client c (glob p) n 0 ws kss" "prefix p k" "\<And>w. w \<in> set ws \<Longrightarrow> mem_view w k \<noteq> Map.empty"
  then show "\<exists>ks \<in> set kss. k \<in> set ks" by (rule mem_scan_complete) auto
qed (auto simp: mem_client_def mem_hset_def mem_hgetall_def mem_del_def mem_scan_def mem_view_fields slot_keys_def
    mem_del_count hset_view_def del_view_def glob_def fun_eq_iff map_add_def
    intro: map_of_nonempty_ex split: option.splits if_splits)

interpretation mem_ctx: redis_ctx mem_client mem_view
  by unfold_locales (auto simp: mem_client_def mem_hset_def mem_fault_def)

end
