(* ===== verification/Progress.thy ===== *)
theory Progress
  imports Redis Strconv
begin

text \<open>
  The progress store (\<^verbatim>\<open>internal/queue/progress.go\<close>): one Redis hash per task, its fields written
  by the API and the worker and read back by the status endpoints. The Redis client is a
  parameter (theory \<open>Redis\<close>); \<open>parse_time\<close> stands for \<^verbatim>\<open>time.Parse(time.RFC3339Nano, \<dots>)\<close> and gives the
  instant in nanoseconds, the zero time being 0. The loops over \<^verbatim>\<open>SCAN\<close> may not end on a server
  that never returns cursor 0, so they are partial.
\<close>

section \<open>Data\<close>

type_synonym gotime = int

record task_progress =
  tp_task_id :: string
  tp_project_id :: string
  tp_state :: string
  tp_series_read :: int
  tp_samples_read :: int
  tp_samples_sent :: int
  tp_batches_sent :: int
  tp_started_at :: gotime
  tp_error :: string

definition zero_progress :: "string \<Rightarrow> task_progress" where
  "zero_progress taskID = \<lparr>tp_task_id = taskID, tp_project_id = [], tp_state = [], tp_series_read = 0,
     tp_samples_read = 0, tp_samples_sent = 0, tp_batches_sent = 0, tp_started_at = 0, tp_error = []\<rparr>"

definition progress_prefix :: string where "progress_prefix = ''migrate:progress:''"

definition progress_key :: "string \<Rightarrow> string" where
  "progress_key taskID = progress_prefix @ taskID"

section \<open>Update, Get, Delete\<close>

definition progress_update :: "'w redis_client \<Rightarrow> ctx \<Rightarrow> string \<Rightarrow> fields \<Rightarrow> ('w, unit) call" where
  "progress_update r c taskID fs w =
     (if length fs = 0 then (Inr (), w)
      else (case rd_hset r c (progress_key taskID) fs w of
              (Inl e, w') \<Rightarrow> (Inl (wrapf (''progress update '' @ taskID @ '': '') e), w')
            | (Inr _, w') \<Rightarrow> (Inr (), w')))"

definition progress_from :: "(string \<Rightarrow> gotime option) \<Rightarrow> string \<Rightarrow> fields \<Rightarrow> task_progress" where
  "progress_from parse_time taskID vals =
     (if length vals = 0 then zero_progress taskID
      else \<lparr>tp_task_id = taskID, tp_project_id = get_str vals ''project_id'', tp_state = get_str vals ''state'',
            tp_series_read = atoi_val (get_str vals ''series_read''),
            tp_samples_read = atoi_val (get_str vals ''samples_read''),
            tp_samples_sent = atoi_val (get_str vals ''samples_sent''),
            tp_batches_sent = atoi_val (get_str vals ''batches_sent''),
            tp_started_at = (case parse_time (get_str vals ''started_at'') of Some t \<Rightarrow> t | None \<Rightarrow> 0),
            tp_error = get_str vals ''error''\<rparr>)"

definition progress_get ::
  "(string \<Rightarrow> gotime option) \<Rightarrow> 'w redis_client \<Rightarrow> ctx \<Rightarrow> string \<Rightarrow> ('w, task_progress) call" where
  "progress_get parse_time r c taskID w =
     (case rd_hgetall r c (progress_key taskID) w of
        (Inl e, w') \<Rightarrow> (Inl (wrapf (''progress get '' @ taskID @ '': '') e), w')
      | (Inr vals, w') \<Rightarrow> (Inr (progress_from parse_time taskID vals), w'))"

text \<open>\<^verbatim>\<open>Delete\<close> and \<^verbatim>\<open>DeleteAll\<close> return the count reached so far beside an error.\<close>

fun delete_loop :: "'w redis_client \<Rightarrow> ctx \<Rightarrow> string list \<Rightarrow> nat \<Rightarrow> 'w \<Rightarrow> (nat \<times> goerr option) \<times> 'w" where
  "delete_loop r c [] count w = ((count, None), w)"
| "delete_loop r c (i # ids) count w =
     (case rd_del r c [progress_key i] w of
        (Inl e, w') \<Rightarrow> ((count, Some (wrapf (''progress delete '' @ i @ '': '') e)), w')
      | (Inr n, w') \<Rightarrow> delete_loop r c ids (count + n) w')"

definition progress_delete :: "'w redis_client \<Rightarrow> ctx \<Rightarrow> string list \<Rightarrow> 'w \<Rightarrow> (nat \<times> goerr option) \<times> 'w" where
  "progress_delete r c ids w = (if length ids = 0 then ((0, None), w) else delete_loop r c ids 0 w)"

partial_function (option) delete_all_loop ::
  "'w redis_client \<Rightarrow> ctx \<Rightarrow> nat \<Rightarrow> nat \<Rightarrow> 'w \<Rightarrow> ((nat \<times> goerr option) \<times> 'w) option" where
  "delete_all_loop r c cursor count w =
     (case rd_scan r c cursor (progress_prefix @ ''*'') 100 w of
        (Inl e, w1) \<Rightarrow> Some ((count, Some (wrapf ''progress delete all scan: '' e)), w1)
      | (Inr (keys, nextCursor), w1) \<Rightarrow>
          (case (if 0 < length keys then rd_del r c keys w1 else (Inr 0, w1)) of
             (Inl e, w2) \<Rightarrow> Some ((count, Some (wrapf ''progress delete all del: '' e)), w2)
           | (Inr n, w2) \<Rightarrow>
               if nextCursor = 0 then Some ((count + n, None), w2)
               else delete_all_loop r c nextCursor (count + n) w2))"

declare delete_all_loop.simps [code]

definition progress_delete_all :: "'w redis_client \<Rightarrow> ctx \<Rightarrow> 'w \<Rightarrow> ((nat \<times> goerr option) \<times> 'w) option" where
  "progress_delete_all r c w = delete_all_loop r c 0 0 w"

section \<open>List and ReconcileStaleActive\<close>

fun get_keys ::
  "(string \<Rightarrow> gotime option) \<Rightarrow> 'w redis_client \<Rightarrow> ctx \<Rightarrow> string list \<Rightarrow> task_progress list \<Rightarrow> ('w, task_progress list) call" where
  "get_keys parse_time r c [] results w = (Inr results, w)"
| "get_keys parse_time r c (key # keys) results w =
     (case progress_get parse_time r c (drop (length progress_prefix) key) w of
        (Inl e, w') \<Rightarrow> (Inl e, w')
      | (Inr p, w') \<Rightarrow> get_keys parse_time r c keys (results @ [p]) w')"

partial_function (option) list_loop ::
  "(string \<Rightarrow> gotime option) \<Rightarrow> 'w redis_client \<Rightarrow> ctx \<Rightarrow> nat \<Rightarrow> task_progress list \<Rightarrow> 'w
     \<Rightarrow> ((goerr + task_progress list) \<times> 'w) option" where
  "list_loop parse_time r c cursor results w =
     (case rd_scan r c cursor (progress_prefix @ ''*'') 100 w of
        (Inl e, w1) \<Rightarrow> Some (Inl (wrapf ''progress list scan: '' e), w1)
      | (Inr (keys, nextCursor), w1) \<Rightarrow>
          (case get_keys parse_time r c keys results w1 of
             (Inl e, w2) \<Rightarrow> Some (Inl e, w2)
           | (Inr results', w2) \<Rightarrow>
               if nextCursor = 0 then Some (Inr results', w2)
               else list_loop parse_time r c nextCursor results' w2))"

declare list_loop.simps [code]

definition progress_list ::
  "(string \<Rightarrow> gotime option) \<Rightarrow> 'w redis_client \<Rightarrow> ctx \<Rightarrow> 'w \<Rightarrow> ((goerr + task_progress list) \<times> 'w) option" where
  "progress_list parse_time r c w = list_loop parse_time r c 0 [] w"

definition stale_error :: string where
  "stale_error = ''worker restarted mid-task (likely OOMKilled or pod eviction); asynq will retry if retries remain''"

fun reconcile_loop :: "'w redis_client \<Rightarrow> ctx \<Rightarrow> task_progress list \<Rightarrow> nat \<Rightarrow> 'w \<Rightarrow> (nat \<times> goerr option) \<times> 'w" where
  "reconcile_loop r c [] reconciled w = ((reconciled, None), w)"
| "reconcile_loop r c (t # ts) reconciled w =
     (if tp_state t \<noteq> ''active'' then reconcile_loop r c ts reconciled w
      else (case progress_update r c (tp_task_id t) [(''state'', ''failed''), (''error'', stale_error)] w of
              (Inl e, w') \<Rightarrow> ((reconciled, Some (wrapf (''reconcile update '' @ tp_task_id t @ '': '') e)), w')
            | (Inr _, w') \<Rightarrow> reconcile_loop r c ts (reconciled + 1) w'))"

definition reconcile_stale_active ::
  "(string \<Rightarrow> gotime option) \<Rightarrow> 'w redis_client \<Rightarrow> ctx \<Rightarrow> 'w \<Rightarrow> ((nat \<times> goerr option) \<times> 'w) option" where
  "reconcile_stale_active parse_time r c w =
     map_option (\<lambda>(res, w').
        case res of
          Inl e \<Rightarrow> ((0, Some (wrapf ''reconcile list: '' e)), w')
        | Inr tasks \<Rightarrow> reconcile_loop r c tasks 0 w') (progress_list parse_time r c w)"

section \<open>The store as one map per task\<close>

text \<open>What \<^verbatim>\<open>Get\<close> shows of a hash.\<close>

definition progress_view :: "(string \<Rightarrow> gotime option) \<Rightarrow> string \<Rightarrow> (string \<rightharpoonup> string) \<Rightarrow> task_progress" where
  "progress_view parse_time taskID m =
     (if m = Map.empty then zero_progress taskID
      else \<lparr>tp_task_id = taskID, tp_project_id = str_of (m ''project_id''), tp_state = str_of (m ''state''),
            tp_series_read = atoi_val (str_of (m ''series_read'')),
            tp_samples_read = atoi_val (str_of (m ''samples_read'')),
            tp_samples_sent = atoi_val (str_of (m ''samples_sent'')),
            tp_batches_sent = atoi_val (str_of (m ''batches_sent'')),
            tp_started_at = (case parse_time (str_of (m ''started_at'')) of Some t \<Rightarrow> t | None \<Rightarrow> 0),
            tp_error = str_of (m ''error'')\<rparr>)"

lemma progress_from_view: "progress_from parse_time taskID vals = progress_view parse_time taskID (map_of vals)"
  by (simp add: progress_from_def progress_view_def get_str_map_of)

lemma progress_key_inj [simp]: "progress_key i = progress_key j \<longleftrightarrow> i = j"
  by (simp add: progress_key_def)

lemma prefix_progress_key [simp]: "prefix progress_prefix (progress_key i)"
  by (simp add: progress_key_def)

lemma progress_key_drop: "prefix progress_prefix k \<Longrightarrow> progress_key (drop (length progress_prefix) k) = k"
  by (auto simp: progress_key_def elim: prefixE)

lemma drop_progress_key [simp]: "drop (length progress_prefix) (progress_key i) = i"
  by (simp add: progress_key_def)

lemma progress_view_state [simp]: "tp_state (progress_view pt i m) = str_of (m ''state'')"
  by (simp add: progress_view_def zero_progress_def)

lemma progress_view_task_id [simp]: "tp_task_id (progress_view pt i m) = i"
  by (simp add: progress_view_def zero_progress_def)

lemma progress_view_error [simp]: "tp_error (progress_view pt i m) = str_of (m ''error'')"
  by (simp add: progress_view_def zero_progress_def)

text \<open>
  The contract the worker and the API rely on: \<open>entry w i\<close> are the fields of task \<open>i\<close>. A successful
  update writes its fields and nothing else; a failed one wrote them or nothing; a read shows
  the entry and changes none.
\<close>

definition entry_update :: "string \<Rightarrow> fields \<Rightarrow> (string \<Rightarrow> string \<rightharpoonup> string) \<Rightarrow> (string \<Rightarrow> string \<rightharpoonup> string)" where
  "entry_update i fs E = E(i := E i ++ map_of fs)"

locale progress_contract =
  fixes update :: "ctx \<Rightarrow> string \<Rightarrow> fields \<Rightarrow> ('w, unit) call"
    and get :: "(string \<Rightarrow> gotime option) \<Rightarrow> ctx \<Rightarrow> string \<Rightarrow> ('w, task_progress) call"
    and entry :: "'w \<Rightarrow> string \<Rightarrow> string \<rightharpoonup> string"
  assumes update_ok: "update c i fs w = (Inr u, w') \<Longrightarrow> entry w' = entry_update i fs (entry w)"
    and update_err: "update c i fs w = (Inl e, w') \<Longrightarrow> entry w' = entry w \<or> entry w' = entry_update i fs (entry w)"
    and get_ok: "get pt c i w = (Inr p, w') \<Longrightarrow> p = progress_view pt i (entry w i) \<and> entry w' = entry w"
    and get_err: "get pt c i w = (Inl e, w') \<Longrightarrow> entry w' = entry w"
begin

lemma update_other: "update c i fs w = (x, w') \<Longrightarrow> j \<noteq> i \<Longrightarrow> entry w' j = entry w j"
  using update_ok [of c i fs w _ w'] update_err [of c i fs w _ w']
  by (cases x) (auto simp: entry_update_def)

lemma update_get:
  "update c i fs w = (Inr u, w1) \<Longrightarrow> get pt c' i w1 = (Inr p, w2) \<Longrightarrow> p = progress_view pt i (entry w i ++ map_of fs)"
  using update_ok [of c i fs w u w1] get_ok [of pt c' i w1 p w2] by (simp add: entry_update_def)

end

definition entries :: "('w \<Rightarrow> hashes) \<Rightarrow> 'w \<Rightarrow> string \<Rightarrow> string \<rightharpoonup> string" where
  "entries view w i = view w (progress_key i)"

sublocale redis_store \<subseteq> store: progress_contract "progress_update r" "\<lambda>pt. progress_get pt r" "entries view"
proof
  fix c i fs w u w'
  assume "progress_update r c i fs w = (Inr u, w')"
  then show "entries view w' = entry_update i fs (entries view w)"
    by (auto simp: progress_update_def entries_def entry_update_def hset_view_def fun_eq_iff
        split: if_splits prod.splits sum.splits dest!: hset_ok)
next
  fix c i fs w e w'
  assume "progress_update r c i fs w = (Inl e, w')"
  then obtain e' where h: "rd_hset r c (progress_key i) fs w = (Inl e', w')"
    by (auto simp: progress_update_def split: if_splits prod.splits sum.splits)
  then show "entries view w' = entries view w \<or> entries view w' = entry_update i fs (entries view w)"
    using hset_err [OF h] by (auto simp: entries_def entry_update_def hset_view_def fun_eq_iff)
next
  fix pt c i w p w'
  assume "progress_get pt r c i w = (Inr p, w')"
  then show "p = progress_view pt i (entries view w i) \<and> entries view w' = entries view w"
    using hgetall_ok [of c "progress_key i" w _ w']
    by (fastforce simp: progress_get_def progress_from_view entries_def [abs_def] split: prod.splits sum.splits)
next
  fix pt c i w e w'
  assume "progress_get pt r c i w = (Inl e, w')"
  then show "entries view w' = entries view w"
    using hgetall_err [of c "progress_key i" w _ w']
    by (auto simp: progress_get_def entries_def [abs_def] split: prod.splits sum.splits)
qed

context redis_store
begin

lemma progress_store_contract: "progress_contract (progress_update r) (\<lambda>pt. progress_get pt r) (entries view)"
  by unfold_locales

end

end
