(* ===== verification/History.thy ===== *)
theory History
  imports Json_Roundtrip Progress
begin

text \<open>
  The history log (\<^verbatim>\<open>internal/queue/history.go\<close>): one JSON object per line for every task that ended.
  The file behind the logger is a parameter \<open>write\<close>; the instants of an entry are formatted by
  \<open>fmt_time\<close>, which stands for the RFC 3339 format that \<^verbatim>\<open>time.Time\<close> is marshalled in.
\<close>

record history_entry =
  he_task_id :: string
  he_project_id :: string
  he_state :: string
  he_series_read :: int
  he_samples_read :: int
  he_samples_sent :: int
  he_batches_sent :: int
  he_started_at :: gotime
  he_ended_at :: gotime
  he_error :: string

definition history_json :: "(gotime \<Rightarrow> string) \<Rightarrow> history_entry \<Rightarrow> json" where
  "history_json fmt_time e = JObj
     ([(''task_id'', JStr (he_task_id e)), (''project_id'', JStr (he_project_id e)), (''state'', JStr (he_state e)),
       (''series_read'', JNum (itoa (he_series_read e))), (''samples_read'', JNum (itoa (he_samples_read e))),
       (''samples_sent'', JNum (itoa (he_samples_sent e))), (''batches_sent'', JNum (itoa (he_batches_sent e))),
       (''started_at'', JStr (fmt_time (he_started_at e))), (''ended_at'', JStr (fmt_time (he_ended_at e)))]
      @ (if he_error e = '''' then [] else [(''error'', JStr (he_error e))]))"

definition newline :: char where "newline = CHR 0x0A"

definition history_line :: "(gotime \<Rightarrow> string) \<Rightarrow> history_entry \<Rightarrow> string" where
  "history_line fmt_time e = print_json (history_json fmt_time e) @ [newline]"

text \<open>A nil logger or writer is \<open>None\<close>; the encoder writes the whole line in one call, under the lock.\<close>

type_synonym 'h history_logger = "(string \<Rightarrow> 'h \<Rightarrow> goerr option \<times> 'h) option"

definition history_append :: "(gotime \<Rightarrow> string) \<Rightarrow> 'h history_logger \<Rightarrow> history_entry \<Rightarrow> 'h \<Rightarrow> goerr option \<times> 'h" where
  "history_append fmt_time h e w = (case h of None \<Rightarrow> (None, w) | Some write \<Rightarrow> write (history_line fmt_time e) w)"

text \<open>A file that takes every write.\<close>

definition file_writer :: "string \<Rightarrow> string \<Rightarrow> goerr option \<times> string" where
  "file_writer s f = (None, f @ s)"

definition append_all :: "(gotime \<Rightarrow> string) \<Rightarrow> history_entry list \<Rightarrow> string \<Rightarrow> string" where
  "append_all fmt_time es f = fold (\<lambda>e f. snd (history_append fmt_time (Some file_writer) e f)) es f"

section \<open>The log is one object per line\<close>

text \<open>How a reader of the log splits it.\<close>

fun split_lines :: "string \<Rightarrow> string \<Rightarrow> string list" where
  "split_lines acc [] = (if acc = [] then [] else [acc])"
| "split_lines acc (c # cs) = (if c = newline then acc # split_lines [] cs else split_lines (acc @ [c]) cs)"

lemma split_lines_append:
  "newline \<notin> set l \<Longrightarrow> split_lines acc (l @ newline # rest) = (acc @ l) # split_lines [] rest"
  by (induction l arbitrary: acc) auto

lemma hex_char_no_newline: "d < 16 \<Longrightarrow> hex_char d \<noteq> newline"
  using hex_val_hex_char [of d] by (auto simp: newline_def hex_val_def)

lemma escape_ascii_no_newline: "byte_in 0 127 c \<Longrightarrow> newline \<notin> set (escape_ascii c)"
proof -
  assume "byte_in 0 127 c"
  then have "of_char c div 16 < (16::nat)" by (simp add: byte_in_def)
  then show ?thesis
    using hex_char_no_newline [of "of_char c div 16"] hex_char_no_newline [of "of_char c mod 16"]
    by (auto simp: escape_ascii_def newline_def quote_char_def backslash_def split: if_splits)
qed

lemma rune_bytes_high:
  assumes "rune_len (c # t) = n" "\<not> byte_in 0 127 c" "x \<in> set (take n (c # t))"
  shows "\<not> byte_in 0 127 x"
proof -
  obtain m where n: "n = Suc m" using assms(3) by (cases n) auto
  with assms(1,2) have k: "lead_len c = n" "1 < n" "n \<le> Suc (length t)" "second_ok c (hd t)"
    "list_all (byte_in 128 191) (drop 1 (take m t))"
    by (auto simp: rune_len_def lead_len_def Let_def split: if_splits)
  have second: "byte_in 128 191 (hd t)" using k(4) by (auto simp: second_ok_def byte_in_def split: if_splits)
  have "set (take m t) \<subseteq> {hd t} \<union> set (drop 1 (take m t))" using k(2) n by (cases t; cases m) auto
  with assms(3) have "x = c \<or> x = hd t \<or> x \<in> set (drop 1 (take m t))" by (auto simp: n)
  with second k(5) have "x = c \<or> byte_in 128 191 x" by (auto simp: list_all_iff)
  with assms(2) show ?thesis by (auto simp: byte_in_def)
qed

lemma escape_no_newline: "newline \<notin> set (escape s)"
proof (induction "length s" arbitrary: s rule: less_induct)
  case less
  show ?case
  proof (cases s)
    case (Cons c cs)
    have ih: "newline \<notin> set (escape cs)" "rune_len s \<noteq> 0 \<Longrightarrow> newline \<notin> set (escape (drop (rune_len s) s))"
      using less.hyps [of cs] less.hyps [of "drop (rune_len s) s"] Cons by auto
    have "newline \<notin> set (take (rune_len s) s)" if "\<not> byte_in 0 127 c"
      using rune_bytes_high [of c cs _ newline] that by (auto simp: Cons byte_in_def newline_def)
    with ih escape_ascii_no_newline [of c] show ?thesis
      by (subst escape.simps) (auto simp: Cons escape_rune_def newline_def backslash_def)
  qed (simp add: escape.simps [of "[]"])
qed

lemma quote_no_newline: "newline \<notin> set (quote s)"
  using escape_no_newline [of s] by (auto simp: quote_def newline_def quote_char_def)

lemma commas_set: "set (commas xs) \<subseteq> (\<Union>x \<in> set xs. set x) \<union> {CHR '',''}"
  by (induction xs rule: commas.induct) auto

lemma itoa_no_newline: "newline \<notin> set (itoa i)"
  using digits_are_digits [of newline] by (auto simp: itoa_def newline_def digit_val_def)

lemma history_json_no_newline: "newline \<notin> set (print_json (history_json fmt_time e))"
  unfolding history_json_def print_json_obj
  using commas_set [of "map print_member _"] quote_no_newline itoa_no_newline
  by (auto simp: newline_def [symmetric] dest!: subsetD [OF commas_set]) (auto simp: newline_def)

definition counters_fit :: "history_entry \<Rightarrow> bool" where
  "counters_fit e \<longleftrightarrow> list_all is_int64 [he_series_read e, he_samples_read e, he_samples_sent e, he_batches_sent e]"

text \<open>An entry as a reader of the log sees it: bytes that are not UTF-8 have become the replacement rune.\<close>

definition repair_entry :: "history_entry \<Rightarrow> history_entry" where
  "repair_entry e = e\<lparr>he_task_id := repair (he_task_id e), he_project_id := repair (he_project_id e),
     he_state := repair (he_state e), he_error := repair (he_error e)\<rparr>"

lemma repair_entry_valid:
  "list_all valid_utf8 [he_task_id e, he_project_id e, he_state e, he_error e] \<Longrightarrow> repair_entry e = e"
  by (simp add: repair_entry_def repair_valid)

lemma history_json_ints: "counters_fit e \<Longrightarrow> json_ints (history_json fmt_time e)"
  by (simp add: counters_fit_def history_json_def atoi_itoa)

lemma repair_history_json: "repair_json (history_json fmt_time e) = history_json (repair \<circ> fmt_time) (repair_entry e)"
proof -
  have keys: "repair k = k" if "list_all (byte_in 0 127) k" for k using that by (simp add: repair_valid ascii_valid_utf8)
  show ?thesis
    by (simp add: history_json_def repair_entry_def keys byte_in_def)
qed

lemma append_all_file: "append_all fmt_time es f = f @ concat (map (history_line fmt_time) es)"
  by (induction es arbitrary: f) (simp_all add: append_all_def history_append_def file_writer_def)

lemma split_history: "split_lines [] (concat (map (history_line fmt_time) es)) = map (print_json \<circ> history_json fmt_time) es"
  by (induction es) (simp_all add: history_line_def split_lines_append [OF history_json_no_newline, of "[]", simplified])

text \<open>
  C26. Whatever the ids and error texts contain, and in whatever order tasks end, the history log holds one
  line per appended entry, and each line is a JSON object that parses back to that entry with the bytes
  that are not UTF-8 (an error text cut in the middle of a rune, say) replaced by the replacement rune; to
  the very entry, if there are none. No project id or error text can break a line or forge one.
\<close>

theorem history_log_roundtrip:
  assumes "list_all counters_fit es"
  shows "map parse_all (split_lines [] (append_all fmt_time es [])) = map (\<lambda>e. Some (history_json (repair \<circ> fmt_time) (repair_entry e))) es
    \<and> (\<forall>e \<in> set es. list_all valid_utf8 [he_task_id e, he_project_id e, he_state e, he_error e] \<longrightarrow> repair_entry e = e)"
proof -
  have "parse_all (print_json (history_json fmt_time e)) = Some (history_json (repair \<circ> fmt_time) (repair_entry e))" if "e \<in> set es" for e
    unfolding repair_history_json [symmetric]
    by (rule parse_all_repairs) (use that assms in \<open>auto simp: list_all_iff history_json_ints\<close>, simp add: history_json_def max_nesting_def)
  then show ?thesis using repair_entry_valid by (simp add: append_all_file split_history)
qed

text \<open>A line break in the id and a rune cut off in the error text.\<close>

definition ex_entry :: history_entry where
  "ex_entry = \<lparr>he_task_id = ''t1'', he_project_id = ''p'' @ [newline], he_state = ''failed'', he_series_read = 1,
     he_samples_read = 2, he_samples_sent = 0, he_batches_sent = 0, he_started_at = 0, he_ended_at = 1, he_error = ''x'' @ [CHR 0xE2, CHR 0x80]\<rparr>"

theorem history_log_roundtrip_witness:
  "\<exists>e. map parse_all (split_lines [] (append_all (\<lambda>_. ''2026-01-01T00:00:00Z'') [ex_entry, ex_entry] []))
     = [Some (history_json (repair \<circ> (\<lambda>_. ''2026-01-01T00:00:00Z'')) e), Some (history_json (repair \<circ> (\<lambda>_. ''2026-01-01T00:00:00Z'')) e)]
     \<and> he_project_id e = ''p'' @ [newline] \<and> he_error e = ''x'' @ replacement @ replacement"
proof -
  have "list_all counters_fit [ex_entry, ex_entry]" by (simp add: counters_fit_def ex_entry_def wire_eval)
  from conjunct1 [OF history_log_roundtrip [OF this, of "\<lambda>_. ''2026-01-01T00:00:00Z''"]]
  have "map parse_all (split_lines [] (append_all (\<lambda>_. ''2026-01-01T00:00:00Z'') [ex_entry, ex_entry] []))
     = [Some (history_json (repair \<circ> (\<lambda>_. ''2026-01-01T00:00:00Z'')) (repair_entry ex_entry)),
        Some (history_json (repair \<circ> (\<lambda>_. ''2026-01-01T00:00:00Z'')) (repair_entry ex_entry))]" by simp
  moreover have "he_project_id (repair_entry ex_entry) = ''p'' @ [newline]"
    by (simp add: repair_entry_def ex_entry_def) (rule repair_valid, simp add: ascii_valid_utf8 byte_in_def newline_def)
  moreover have "he_error (repair_entry ex_entry) = ''x'' @ replacement @ replacement"
  proof -
    have "repair (''x'' @ [CHR 0xE2, CHR 0x80]) = ''x'' @ repair [CHR 0xE2, CHR 0x80]"
      by (subst repair.simps) (simp add: rune_len_ascii byte_in_def)
    also have "repair [CHR 0xE2, CHR 0x80] = replacement @ repair [CHR 0x80]"
      by (subst repair.simps) (simp add: rune_len_def lead_len_def byte_in_def)
    also have "repair [CHR 0x80] = replacement"
      by (subst repair.simps) (simp add: rune_len_def lead_len_def byte_in_def repair.simps [of "[]"])
    finally show ?thesis by (simp add: repair_entry_def ex_entry_def)
  qed
  ultimately show ?thesis by (intro exI conjI)
qed

end
