(* ===== verification/Progress_Correct.thy ===== *)
theory Progress_Correct
  imports Progress
begin

text \<open>
  What the operations of the progress store do to the hashes of the server, on any client that
  keeps the promises of \<open>redis_store\<close> and \<open>redis_bounded\<close>: deletion and its count, the loops over
  \<^verbatim>\<open>SCAN\<close> (they end, see every task and touch no foreign key), and the reconciliation at boot.
\<close>

section \<open>Deletion\<close>

lemma progress_glob: "progress_prefix @ ''*'' = glob progress_prefix"
  by (simp add: glob_def)

lemma del_view_append: "del_view ks (del_view ls h) = del_view (ls @ ks) h"
  by (auto simp: del_view_def)

lemma del_view_Nil [simp]: "del_view [] h = h"
  by (simp add: del_view_def)

lemma card_del_append:
  "card {k \<in> set ks. h k \<noteq> Map.empty} + card {k \<in> set ls. del_view ks h k \<noteq> Map.empty}
     = card {k \<in> set (ks @ ls). h k \<noteq> Map.empty}"
proof -
  have "{k \<in> set (ks @ ls). h k \<noteq> Map.empty}
      = {k \<in> set ks. h k \<noteq> Map.empty} \<union> {k \<in> set ls. del_view ks h k \<noteq> Map.empty}"
    by (auto simp: del_view_def)
  moreover have "{k \<in> set ks. h k \<noteq> Map.empty} \<inter> {k \<in> set ls. del_view ks h k \<noteq> Map.empty} = {}"
    by (auto simp: del_view_def)
  ultimately show ?thesis by (simp add: card_Un_disjoint)
qed

context redis_store
begin

lemma delete_loop_ok:
  assumes "delete_loop r c ids count w = ((n, None), w')"
  shows "view w' = del_view (map progress_key ids) (view w)
    \<and> n = count + card {k \<in> set (map progress_key ids). view w k \<noteq> Map.empty}"
  using assms
proof (induction ids arbitrary: count w)
  case (Cons i ids)
  from Cons.prems obtain m w1 where del: "rd_del r c [progress_key i] w = (Inr m, w1)"
    and rest: "delete_loop r c ids (count + m) w1 = ((n, None), w')"
    by (auto split: prod.splits sum.splits)
  note d = del_ok [OF del] and ih = Cons.IH [OF rest]
  have v: "view w' = del_view (map progress_key (i # ids)) (view w)"
    using d ih by (simp add: del_view_append)
  have "n = count + card {k \<in> set ([progress_key i] @ map progress_key ids). view w k \<noteq> Map.empty}"
    unfolding card_del_append [symmetric] using d ih by simp
  with v show ?case by simp
qed simp

lemma delete_loop_err:
  assumes "delete_loop r c ids count w = ((n, Some e), w')"
  shows "\<exists>js. set js \<subseteq> set ids \<and> view w' = del_view (map progress_key js) (view w)"
  using assms
proof (induction ids arbitrary: count w)
  case (Cons i ids)
  show ?case
  proof (cases "rd_del r c [progress_key i] w")
    case (Pair x w1)
    show ?thesis
    proof (cases x)
      case (Inl e')
      with Pair Cons.prems have "w' = w1" by simp
      with Pair Inl del_err [of c "[progress_key i]" w e' w1] have
        "view w' = del_view (map progress_key []) (view w) \<or> view w' = del_view (map progress_key [i]) (view w)"
        by auto
      then show ?thesis by (elim disjE) (rule exI [of _ "[]"], simp, rule exI [of _ "[i]"], simp)
    next
      case (Inr m)
      with Pair Cons.prems have "delete_loop r c ids (count + m) w1 = ((n, Some e), w')" by simp
      then obtain js where js: "set js \<subseteq> set ids" "view w' = del_view (map progress_key js) (view w1)"
        using Cons.IH by blast
      have "view w' = del_view (map progress_key (i # js)) (view w)"
        using js(2) del_ok [OF Pair [unfolded Inr]] by (simp add: del_view_append)
      with js(1) show ?thesis by (metis insert_mono list.simps(15))
    qed
  qed
qed simp

end

lemma del_view_progress: "entries (\<lambda>_. del_view (map progress_key ids) h) w i = (if i \<in> set ids then Map.empty else h (progress_key i))"
  by (auto simp: entries_def del_view_def)

lemma card_progress_keys:
  "card {k \<in> set (map progress_key ids). h k \<noteq> Map.empty} = card {i \<in> set ids. h (progress_key i) \<noteq> Map.empty}"
proof -
  have "{k \<in> set (map progress_key ids). h k \<noteq> Map.empty} = progress_key ` {i \<in> set ids. h (progress_key i) \<noteq> Map.empty}"
    by auto
  then show ?thesis by (simp add: card_image inj_on_def)
qed

section \<open>The loops over SCAN\<close>

context redis_bounded
begin

lemma get_keys_reads:
  assumes "get_keys pt r c keys results w = (x, w')"
  shows "view w' = view w \<and> rank w' cur \<le> rank w cur \<and> read_or_del r w w'
    \<and> (\<forall>ps. x = Inr ps \<longrightarrow> ps = results @ map (\<lambda>k. progress_view pt (drop (length progress_prefix) k)
         (view w (progress_key (drop (length progress_prefix) k)))) keys)"
  using assms
proof (induction keys arbitrary: results w)
  case (Cons key keys)
  let ?i = "drop (length progress_prefix) key"
  obtain y w1 where h: "rd_hgetall r c (progress_key ?i) w = (y, w1)" by fastforce
  note rk = hgetall_rank [OF h, of cur]
  show ?case
  proof (cases y)
    case (Inl e)
    with h Cons.prems have "w' = w1" "\<exists>e. x = Inl e" by (auto simp: progress_get_def)
    moreover have "view w1 = view w" using hgetall_err h Inl by blast
    moreover have "read_or_del r w w1" using h by (rule rd_read) (rule rd_refl)
    ultimately show ?thesis using rk by auto
  next
    case (Inr vals)
    then have g: "view w1 = view w" "map_of vals = view w (progress_key ?i)" using hgetall_ok h by blast+
    have "get_keys pt r c keys (results @ [progress_view pt ?i (view w (progress_key ?i))]) w1 = (x, w')"
      using Cons.prems h Inr by (simp add: progress_get_def progress_from_view g)
    from Cons.IH [OF this] g rk h show ?thesis by (auto intro: rd_read)
  qed
qed (auto intro: rd_refl)

end

text \<open>
  What a run of the \<^verbatim>\<open>DeleteAll\<close> loop from a cursor has done: it deleted the keys \<open>kss\<close> that its
  scans returned; without an error the count grew by the number of those that existed, and the
  scans form a full iteration at whose calls every other key was as before.
\<close>

definition cleared ::
  "'w redis_client \<Rightarrow> ('w \<Rightarrow> hashes) \<Rightarrow> ctx \<Rightarrow> nat \<Rightarrow> 'w \<Rightarrow> string list list \<Rightarrow> nat \<Rightarrow> goerr option \<Rightarrow> 'w \<Rightarrow> bool" where
  "cleared r view c cur w kss m eo w' \<longleftrightarrow>
     (\<forall>k \<in> set (concat kss). prefix progress_prefix k)
     \<and> view w' = del_view (concat kss) (view w)
     \<and> (eo = None \<longrightarrow> m = card {k \<in> set (concat kss). view w k \<noteq> Map.empty}
          \<and> (\<exists>ws. hd ws = w \<and> scan_calls r c (glob progress_prefix) 100 cur ws kss
               \<and> (\<forall>w1 \<in> set ws. \<forall>k. k \<notin> set (concat kss) \<longrightarrow> view w1 k = view w k)))"

context redis_bounded
begin

lemma cleared_err:
  assumes "rd_scan r c cur (glob progress_prefix) 100 w = (Inr (keys, nxt), w1)" "rd_del r c keys w1 = (Inl e, w2)"
  shows "\<exists>kss. cleared r view c cur w kss m (Some e') w2"
proof -
  note ok = scan_ok [OF assms(1)]
  from del_err [OF assms(2)] show ?thesis
  proof
    assume "view w2 = view w1"
    with ok show ?thesis by (intro exI [of _ "[]"]) (simp add: cleared_def)
  next
    assume "view w2 = del_view keys (view w1)"
    with ok show ?thesis by (intro exI [of _ "[keys]"]) (simp add: cleared_def)
  qed
qed

lemma cleared_step:
  assumes scan: "rd_scan r c cur (glob progress_prefix) 100 w = (Inr (keys, nxt), w1)" "nxt \<noteq> 0"
    and del: "k = card {k \<in> set keys. view w k \<noteq> Map.empty}" "view w2 = del_view keys (view w)" "read_or_del r w1 w2"
    and rest: "cleared r view c nxt w2 kss m eo w'"
  shows "cleared r view c cur w (keys # kss) (k + m) eo w'"
proof -
  note ok = scan_ok [OF scan(1)]
  have "\<exists>ws. hd ws = w \<and> scan_calls r c (glob progress_prefix) 100 cur ws (keys # kss)
      \<and> (\<forall>w1 \<in> set ws. \<forall>k. k \<notin> set (concat (keys # kss)) \<longrightarrow> view w1 k = view w k)" if none: "eo = None"
  proof -
    obtain ws where ws: "hd ws = w2" "scan_calls r c (glob progress_prefix) 100 nxt ws kss"
      "\<forall>w1 \<in> set ws. \<forall>k. k \<notin> set (concat kss) \<longrightarrow> view w1 k = view w2 k"
      using rest none by (auto simp: cleared_def)
    then have "ws \<noteq> []" by auto
    with scan del(3) ws(1,2) have "scan_calls r c (glob progress_prefix) 100 cur (w # ws) (keys # kss)" by simp
    moreover have "\<forall>w1 \<in> set (w # ws). \<forall>k. k \<notin> set (concat (keys # kss)) \<longrightarrow> view w1 k = view w k"
      using ws(3) del(2) by (auto simp: del_view_def)
    ultimately show ?thesis by (intro exI [of _ "w # ws"]) simp
  qed
  moreover have "k + m = card {k \<in> set (concat (keys # kss)). view w k \<noteq> Map.empty}" if "eo = None"
    using rest that del(1,2) card_del_append [of keys "view w" "concat kss"] by (simp add: cleared_def)
  ultimately show ?thesis
    using ok rest del(2) by (auto simp: cleared_def del_view_append)
qed

lemma cleared_last:
  assumes "rd_scan r c cur (glob progress_prefix) 100 w = (Inr (keys, 0), w1)"
    "k = card {k \<in> set keys. view w k \<noteq> Map.empty}" "view w2 = del_view keys (view w)"
  shows "cleared r view c cur w [keys] k None w2"
proof -
  have "scan_calls r c (glob progress_prefix) 100 cur [w] [keys]" using assms(1) by simp
  with assms(2,3) scan_ok [OF assms(1)] show ?thesis
    by (auto simp: cleared_def intro!: exI [of _ "[w]"])
qed

lemma delete_all_scan_error:
  assumes "rd_scan r c cur (glob progress_prefix) 100 w = (Inl e, w1)"
  shows "\<exists>m eo w' kss. delete_all_loop r c cur n w = Some ((n + m, eo), w') \<and> cleared r view c cur w kss m eo w'"
proof -
  from assms scan_err have "view w1 = view w" by blast
  then have "cleared r view c cur w [] 0 (Some (wrapf ''progress delete all scan: '' e)) w1"
    by (simp add: cleared_def)
  moreover have "delete_all_loop r c cur n w = Some ((n + 0, Some (wrapf ''progress delete all scan: '' e)), w1)"
    using assms by (subst delete_all_loop.simps) (simp add: progress_glob)
  ultimately show ?thesis by blast
qed

text \<open>One page: the scan succeeded, and its keys are deleted if there are any.\<close>

lemma delete_all_page:
  assumes s: "rd_scan r c cur (glob progress_prefix) 100 w = (Inr (keys, nxt), w1)"
    and d: "(if 0 < length keys then rd_del r c keys w1 else (Inr 0, w1)) = (y, w2)"
  shows "delete_all_loop r c cur n w =
      (case y of Inl e \<Rightarrow> Some ((n, Some (wrapf ''progress delete all del: '' e)), w2)
       | Inr k \<Rightarrow> if nxt = 0 then Some ((n + k, None), w2) else delete_all_loop r c nxt (n + k) w2)"
    and "rank w2 cur' \<le> rank w1 cur'" and "read_or_del r w1 w2"
    and "y = Inl e \<Longrightarrow> rd_del r c keys w1 = (Inl e, w2)"
    and "y = Inr k \<Longrightarrow> k = card {k \<in> set keys. view w k \<noteq> Map.empty}" "y = Inr k \<Longrightarrow> view w2 = del_view keys (view w)"
proof -
  show "delete_all_loop r c cur n w =
      (case y of Inl e \<Rightarrow> Some ((n, Some (wrapf ''progress delete all del: '' e)), w2)
       | Inr k \<Rightarrow> if nxt = 0 then Some ((n + k, None), w2) else delete_all_loop r c nxt (n + k) w2)"
    using d by (subst delete_all_loop.simps) (auto simp: s progress_glob split: if_splits)
  show "rank w2 cur' \<le> rank w1 cur'" using d del_rank by (auto split: if_splits)
  show "read_or_del r w1 w2" using d by (auto split: if_splits intro: rd_refl rd_remove)
  show "y = Inl e \<Longrightarrow> rd_del r c keys w1 = (Inl e, w2)" using d by (auto split: if_splits)
  show "y = Inr k \<Longrightarrow> k = card {k \<in> set keys. view w k \<noteq> Map.empty}" "y = Inr k \<Longrightarrow> view w2 = del_view keys (view w)"
    using d scan_ok [OF s] del_ok [of c keys w1 k w2] by (auto split: if_splits)
qed

lemma delete_all_loop_correct:
  "\<exists>m eo w' kss. delete_all_loop r c cur n w = Some ((n + m, eo), w') \<and> cleared r view c cur w kss m eo w'"
proof (induction "rank w cur" arbitrary: w cur n rule: less_induct)
  case less
  obtain x w1 where s: "rd_scan r c cur (glob progress_prefix) 100 w = (x, w1)" by fastforce
  consider e where "x = Inl e" | keys nxt where "x = Inr (keys, nxt)" by (cases x) auto
  then show ?case
  proof cases
    case 1
    with s show ?thesis by (intro delete_all_scan_error) simp
  next
    case 2
    obtain y w2 where d: "(if 0 < length keys then rd_del r c keys w1 else (Inr 0, w1)) = (y, w2)" by fastforce
    note page = delete_all_page [OF s [unfolded 2] d]
    consider e where "y = Inl e" | k where "y = Inr k" "nxt = 0" | k where "y = Inr k" "nxt \<noteq> 0" by (cases y) auto
    then show ?thesis
    proof cases
      fix e
      assume e: "y = Inl e"
      with cleared_err s 2 page(4) obtain kss where "cleared r view c cur w kss 0 (Some (wrapf ''progress delete all del: '' e)) w2"
        by blast
      moreover have "delete_all_loop r c cur n w = Some ((n + 0, Some (wrapf ''progress delete all del: '' e)), w2)"
        by (simp add: page(1) e)
      ultimately show ?thesis by blast
    next
      fix k
      assume k: "y = Inr k" "nxt = 0"
      then have "delete_all_loop r c cur n w = Some ((n + k, None), w2)" by (simp add: page(1))
      with cleared_last s 2 k(2) page(5,6) [OF k(1)] show ?thesis by blast
    next
      fix k
      assume k: "y = Inr k" "nxt \<noteq> 0"
      have "rank w2 nxt < rank w cur" using scan_rank [OF s [unfolded 2] k(2)] page(2) [of nxt] by simp
      from less [OF this, of "n + k"] obtain m eo w' kss where
        "delete_all_loop r c nxt (n + k) w2 = Some ((n + k + m, eo), w')" "cleared r view c nxt w2 kss m eo w'" by blast
      moreover have "delete_all_loop r c cur n w = delete_all_loop r c nxt (n + k) w2" by (simp add: page(1) k)
      ultimately show ?thesis using cleared_step [OF s [unfolded 2] k(2) page(5,6) [OF k(1)] page(3)] by (metis add.assoc)
    qed
  qed
qed

end

text \<open>
  A full iteration of \<^verbatim>\<open>List\<close> from a cursor: the keys \<open>kss\<close> its scans returned all exist, no call
  changes the hashes.
\<close>

definition listed ::
  "'w redis_client \<Rightarrow> ('w \<Rightarrow> hashes) \<Rightarrow> ctx \<Rightarrow> nat \<Rightarrow> 'w \<Rightarrow> string list list \<Rightarrow> bool" where
  "listed r view c cur w kss \<longleftrightarrow>
     (\<forall>k \<in> set (concat kss). prefix progress_prefix k \<and> view w k \<noteq> Map.empty)
     \<and> (\<exists>ws. hd ws = w \<and> scan_calls r c (glob progress_prefix) 100 cur ws kss \<and> (\<forall>w1 \<in> set ws. view w1 = view w))"

definition show_keys :: "(string \<Rightarrow> gotime option) \<Rightarrow> hashes \<Rightarrow> string list \<Rightarrow> task_progress list" where
  "show_keys pt h ks = map (\<lambda>k. progress_view pt (drop (length progress_prefix) k)
     (h (progress_key (drop (length progress_prefix) k)))) ks"

lemma show_keys_append [simp]: "show_keys pt h (ks @ ls) = show_keys pt h ks @ show_keys pt h ls"
  by (simp add: show_keys_def)

context redis_bounded
begin

lemma listed_step:
  assumes scan: "rd_scan r c cur (glob progress_prefix) 100 w = (Inr (keys, nxt), w1)" "nxt \<noteq> 0"
    and reads: "view w2 = view w1" "read_or_del r w1 w2" and rest: "listed r view c nxt w2 kss"
  shows "listed r view c cur w (keys # kss)"
proof -
  note ok = scan_ok [OF scan(1)]
  obtain ws where ws: "hd ws = w2" "scan_calls r c (glob progress_prefix) 100 nxt ws kss" "\<forall>w1 \<in> set ws. view w1 = view w2"
    using rest by (auto simp: listed_def)
  then have "ws \<noteq> []" by auto
  with scan reads ws have "scan_calls r c (glob progress_prefix) 100 cur (w # ws) (keys # kss)" by simp
  moreover have "\<forall>w1 \<in> set (w # ws). view w1 = view w" using ws(3) reads(1) ok by auto
  ultimately show ?thesis
    using ok rest reads(1) unfolding listed_def by (intro conjI exI [of _ "w # ws"]) auto
qed

lemma listed_last:
  "rd_scan r c cur (glob progress_prefix) 100 w = (Inr (keys, 0), w1) \<Longrightarrow> listed r view c cur w [keys]"
  using scan_ok [of c cur progress_prefix 100 w keys 0 w1] unfolding listed_def
  by (intro conjI exI [of _ "[w]"]) auto

text \<open>The keys of a page precede those of the rest of the iteration.\<close>

lemma listed_prepend:
  assumes "rd_scan r c cur (glob progress_prefix) 100 w = (Inr (keys, nxt), w1)" "nxt \<noteq> 0"
    and "view w2 = view w1" "read_or_del r w1 w2"
    and rest: "\<exists>kss. listed r view c nxt w2 kss \<and> ps = (results @ show_keys pt (view w) keys) @ show_keys pt (view w2) (concat kss)"
  shows "\<exists>kss. listed r view c cur w kss \<and> ps = results @ show_keys pt (view w) (concat kss)"
proof -
  from rest obtain kss where "listed r view c nxt w2 kss" "ps = (results @ show_keys pt (view w) keys) @ show_keys pt (view w2) (concat kss)"
    by blast
  with listed_step [OF assms(1-4)] scan_ok [OF assms(1)] assms(3) show ?thesis
    by (intro exI [of _ "keys # kss"]) simp
qed

lemma list_loop_correct:
  "\<exists>x w'. list_loop pt r c cur results w = Some (x, w') \<and> view w' = view w
     \<and> (\<forall>ps. x = Inr ps \<longrightarrow> (\<exists>kss. listed r view c cur w kss \<and> ps = results @ show_keys pt (view w) (concat kss)))"
proof (induction "rank w cur" arbitrary: w cur results rule: less_induct)
  case less
  obtain x w1 where s: "rd_scan r c cur (glob progress_prefix) 100 w = (x, w1)" by fastforce
  consider e where "x = Inl e" | keys nxt where "x = Inr (keys, nxt)" by (cases x) auto
  then show ?case
  proof cases
    case 1
    with s scan_err have "view w1 = view w" by blast
    with 1 s show ?thesis by (subst list_loop.simps) (simp add: progress_glob)
  next
    case 2
    note ok = scan_ok [OF s [unfolded 2]]
    obtain y w2 where g: "get_keys pt r c keys results w1 = (y, w2)" by fastforce
    note reads = get_keys_reads [OF g, of nxt, folded show_keys_def]
    have unfold: "list_loop pt r c cur results w = (case y of Inl e \<Rightarrow> Some (Inl e, w2)
        | Inr results' \<Rightarrow> if nxt = 0 then Some (Inr results', w2) else list_loop pt r c nxt results' w2)"
      by (subst list_loop.simps) (auto simp: s 2 g progress_glob)
    show ?thesis
    proof (cases y)
      case (Inl e)
      with unfold ok reads show ?thesis by simp
    next
      case (Inr results')
      then have res: "results' = results @ show_keys pt (view w) keys" using reads ok by simp
      show ?thesis
      proof (cases "nxt = 0")
        case True
        with unfold Inr ok reads res listed_last s 2 show ?thesis by (fastforce intro!: exI [of _ "[keys]"])
      next
        case False
        have "rank w2 nxt < rank w cur" using scan_rank [OF s [unfolded 2] False] reads by simp
        from less [OF this, of results'] obtain x' w' where ih: "list_loop pt r c nxt results' w2 = Some (x', w')"
          "view w' = view w2" "\<And>ps. x' = Inr ps \<Longrightarrow> \<exists>kss. listed r view c nxt w2 kss \<and> ps = results' @ show_keys pt (view w2) (concat kss)"
          by blast
        have "\<exists>kss. listed r view c cur w kss \<and> ps = results @ show_keys pt (view w) (concat kss)" if "x' = Inr ps" for ps
          using listed_prepend [OF s [unfolded 2] False _ _ ih(3) [OF that, unfolded res]] reads by blast
        with ih(1,2) unfold Inr False reads ok show ?thesis by auto
      qed
    qed
  qed
qed

text \<open>Completeness: a full iteration from cursor 0 returns every task that has an entry, and only those.\<close>

lemma listed_ids:
  assumes "listed r view c 0 w kss"
  shows "{i. entries view w i \<noteq> Map.empty} = drop (length progress_prefix) ` set (concat kss)"
proof (intro set_eqI iffI)
  fix i assume "i \<in> {i. entries view w i \<noteq> Map.empty}"
  moreover obtain ws where "scan_calls r c (glob progress_prefix) 100 0 ws kss" "\<forall>w1 \<in> set ws. view w1 = view w"
    using assms by (auto simp: listed_def)
  ultimately have "\<exists>ks \<in> set kss. progress_key i \<in> set ks"
    using scan_complete [of c progress_prefix 100 ws kss "progress_key i"] by (auto simp: entries_def)
  then show "i \<in> drop (length progress_prefix) ` set (concat kss)"
    by (auto intro!: image_eqI [of _ _ "progress_key i"])
next
  fix i assume "i \<in> drop (length progress_prefix) ` set (concat kss)"
  then show "i \<in> {i. entries view w i \<noteq> Map.empty}"
    using assms by (auto simp: listed_def entries_def progress_key_drop)
qed

lemma cleared_all:
  assumes "cleared r view c 0 w kss m None w'"
  shows "entries view w' i = Map.empty" "m = card {i. entries view w i \<noteq> Map.empty}"
proof -
  obtain ws where ws: "scan_calls r c (glob progress_prefix) 100 0 ws kss"
    "\<forall>w1 \<in> set ws. \<forall>k. k \<notin> set (concat kss) \<longrightarrow> view w1 k = view w k"
    and v: "view w' = del_view (concat kss) (view w)" and m: "m = card {k \<in> set (concat kss). view w k \<noteq> Map.empty}"
    and p: "\<forall>k \<in> set (concat kss). prefix progress_prefix k"
    using assms by (auto simp: cleared_def)
  have complete: "progress_key i \<in> set (concat kss)" if "view w (progress_key i) \<noteq> Map.empty" for i
  proof (rule ccontr)
    assume "\<not> ?thesis"
    with ws that scan_complete [of c progress_prefix 100 ws kss "progress_key i"] show False by auto
  qed
  then show "entries view w' i = Map.empty" by (auto simp: v entries_def del_view_def)
  have "{k \<in> set (concat kss). view w k \<noteq> Map.empty} = progress_key ` {i. entries view w i \<noteq> Map.empty}"
  proof (intro set_eqI iffI)
    fix k assume k: "k \<in> {k \<in> set (concat kss). view w k \<noteq> Map.empty}"
    with p have "k = progress_key (drop (length progress_prefix) k)" by (metis (lifting) mem_Collect_eq progress_key_drop)
    with k show "k \<in> progress_key ` {i. entries view w i \<noteq> Map.empty}" by (auto simp: entries_def)
  qed (use complete in \<open>auto simp: entries_def\<close>)
  then show "m = card {i. entries view w i \<noteq> Map.empty}" by (simp add: m card_image inj_on_def)
qed

end

section \<open>Reconciliation\<close>

definition is_active :: "task_progress \<Rightarrow> bool" where
  "is_active t \<longleftrightarrow> tp_state t = ''active''"

abbreviation failed_fields :: "string \<rightharpoonup> string" where
  "failed_fields \<equiv> map_of [(''state'', ''failed''), (''error'', stale_error)]"

abbreviation fail_entries :: "string set \<Rightarrow> (string \<Rightarrow> string \<rightharpoonup> string) \<Rightarrow> string \<Rightarrow> string \<rightharpoonup> string" where
  "fail_entries I E \<equiv> \<lambda>i. if i \<in> I then E i ++ failed_fields else E i"

lemma fail_entries_insert: "fail_entries I (entry_update j [(''state'', ''failed''), (''error'', stale_error)] E) = fail_entries (insert j I) E"
  by (auto simp: entry_update_def fun_eq_iff map_add_def)

context redis_store
begin

lemma update_foreign: "progress_update r c i fs w = (x, w') \<Longrightarrow> \<not> prefix progress_prefix k \<Longrightarrow> view w' k = view w k"
  using hset_ok [of c "progress_key i" fs w _ w'] hset_err [of c "progress_key i" fs w _ w']
  by (fastforce simp: progress_update_def hset_view_def split: if_splits prod.splits sum.splits)

lemma reconcile_loop_effect:
  assumes "reconcile_loop r c ts n w = ((m, eo), w')"
  shows "\<exists>I. I \<subseteq> tp_task_id ` set (filter is_active ts) \<and> entries view w' = fail_entries I (entries view w)
    \<and> (\<forall>k. \<not> prefix progress_prefix k \<longrightarrow> view w' k = view w k)
    \<and> (eo = None \<longrightarrow> I = tp_task_id ` set (filter is_active ts) \<and> m = n + length (filter is_active ts))"
  using assms
proof (induction ts arbitrary: n w)
  case (Cons t ts)
  show ?case
  proof (cases "is_active t")
    case False
    with Cons.prems have "reconcile_loop r c ts n w = ((m, eo), w')" by (simp add: is_active_def)
    from Cons.IH [OF this] False show ?thesis by simp
  next
    case True
    let ?fs = "[(''state'', ''failed''), (''error'', stale_error)]"
    obtain x w1 where u: "progress_update r c (tp_task_id t) ?fs w = (x, w1)" by fastforce
    note foreign = update_foreign [OF u]
    show ?thesis
    proof (cases x)
      case (Inl e)
      with u True Cons.prems have w1: "w' = w1" "eo \<noteq> None" by (auto simp: is_active_def)
      have "entries view w1 = fail_entries {} (entries view w) \<or> entries view w1 = fail_entries {tp_task_id t} (entries view w)"
        using store.update_err [OF u [unfolded Inl]] fail_entries_insert [of "{}"] by simp
      then show ?thesis
        using True w1 foreign by (elim disjE) (rule exI [of _ "{}"], simp, rule exI [of _ "{tp_task_id t}"], auto)
    next
      case (Inr v)
      with u True Cons.prems have "reconcile_loop r c ts (n + 1) w1 = ((m, eo), w')" by (simp add: is_active_def)
      from Cons.IH [OF this] obtain I where I: "I \<subseteq> tp_task_id ` set (filter is_active ts)"
        "entries view w' = fail_entries I (entries view w1)" "\<forall>k. \<not> prefix progress_prefix k \<longrightarrow> view w' k = view w1 k"
        "eo = None \<longrightarrow> I = tp_task_id ` set (filter is_active ts) \<and> m = n + 1 + length (filter is_active ts)" by blast
      have "entries view w' = fail_entries (insert (tp_task_id t) I) (entries view w)"
        unfolding I(2) store.update_ok [OF u [unfolded Inr]] by (rule fail_entries_insert)
      then show ?thesis
        using I True foreign by (intro exI [of _ "insert (tp_task_id t) I"]) auto
    qed
  qed
qed simp

end

lemma show_keys_ids: "map tp_task_id (show_keys pt h ks) = map (drop (length progress_prefix)) ks"
  by (simp add: show_keys_def)

lemma show_keys_entries: "show_keys pt (view w) ks = map (\<lambda>i. progress_view pt i (entries view w i)) (map (drop (length progress_prefix)) ks)"
  by (simp add: show_keys_def entries_def)

context redis_bounded
begin

lemma list_correct:
  "\<exists>x w'. progress_list pt r c w = Some (x, w') \<and> view w' = view w
     \<and> (\<forall>ps. x = Inr ps \<longrightarrow> ps = map (\<lambda>i. progress_view pt i (entries view w i)) (map tp_task_id ps)
          \<and> tp_task_id ` set ps = {i. entries view w i \<noteq> Map.empty})"
proof -
  obtain x w' where xw: "progress_list pt r c w = Some (x, w')" "view w' = view w"
    "\<And>ps. x = Inr ps \<Longrightarrow> \<exists>kss. listed r view c 0 w kss \<and> ps = show_keys pt (view w) (concat kss)"
    using list_loop_correct [of pt c 0 "[]" w] by (auto simp: progress_list_def)
  have "ps = map (\<lambda>i. progress_view pt i (entries view w i)) (map tp_task_id ps)
      \<and> tp_task_id ` set ps = {i. entries view w i \<noteq> Map.empty}" if "x = Inr ps" for ps
  proof -
    from xw(3) [OF that] obtain kss where kss: "listed r view c 0 w kss" "ps = show_keys pt (view w) (concat kss)" by blast
    then have ids: "map tp_task_id ps = map (drop (length progress_prefix)) (concat kss)" by (simp add: show_keys_ids)
    then have "tp_task_id ` set ps = drop (length progress_prefix) ` set (concat kss)" by (metis list.set_map)
    with listed_ids [OF kss(1)] have "tp_task_id ` set ps = {i. entries view w i \<noteq> Map.empty}" by simp
    moreover have "ps = map (\<lambda>i. progress_view pt i (entries view w i)) (map tp_task_id ps)"
      using show_keys_entries [of pt view w "concat kss"] by (simp add: kss(2) ids [unfolded kss(2)])
    ultimately show ?thesis by simp
  qed
  with xw(1,2) show ?thesis by blast
qed

end

section \<open>What the store promises\<close>

definition no_time :: "string \<Rightarrow> gotime option" where
  "no_time s = None"

definition ex_redis :: mem_redis where
  "ex_redis = \<lparr>mr_data = [(''migrate:progress:a'', [(''state'', ''active''), (''samples_sent'', ''7'')]),
     (''migrate:progress:b'', [(''state'', ''completed'')]), (''asynq:queues'', [(''x'', ''1'')])],
     mr_up = True, mr_rehash = False\<rparr>"

text \<open>
  C29. Deleting by id (\<^verbatim>\<open>ProgressStore.Delete\<close>): without an error exactly the entries of the given
  tasks are gone, every other hash of the server is untouched, and the count is the number of
  distinct given tasks that had an entry; with an error, entries of given tasks at most are gone.
\<close>

theorem delete_removes_exactly:
  assumes "redis_store r view" "progress_delete r c ids w = ((n, eo), w')"
  shows "\<exists>js. set js \<subseteq> set ids \<and> view w' = (\<lambda>k. if k \<in> progress_key ` set js then Map.empty else view w k)
    \<and> (eo = None \<longrightarrow> set js = set ids \<and> n = card {i \<in> set ids. entries view w i \<noteq> Map.empty})"
proof -
  have "delete_loop r c ids 0 w = ((n, eo), w')"
    using assms(2) by (cases ids) (auto simp: progress_delete_def)
  then show ?thesis
    using redis_store.delete_loop_ok [OF assms(1)] redis_store.delete_loop_err [OF assms(1)]
    by (cases eo) (fastforce simp: del_view_def entries_def card_progress_keys [simplified])+
qed

theorem delete_removes_exactly_witness:
  "redis_store mem_client mem_view
   \<and> (\<exists>w'. progress_delete mem_client Live [''a'', ''zz'', ''a''] ex_redis = ((1, None), w')
      \<and> mem_view w' (progress_key ''a'') = Map.empty)"
proof -
  let ?w' = "ex_redis\<lparr>mr_data := [(''migrate:progress:b'', [(''state'', ''completed'')]), (''asynq:queues'', [(''x'', ''1'')])]\<rparr>"
  have run: "progress_delete mem_client Live [''a'', ''zz'', ''a''] ex_redis = ((1, None), ?w')"
    by (simp add: progress_delete_def mem_client_def mem_del_def mem_fault_def ex_redis_def progress_key_def
        progress_prefix_def mem_fields_def)
  with delete_removes_exactly [OF mem.redis_store_axioms run] mem.redis_store_axioms show ?thesis by force
qed

text \<open>
  C30. \<^verbatim>\<open>DeleteAll\<close> returns whatever the server holds, and never touches a key that is not a progress
  key. When it reports no error, no task has an entry any more and the count is the number of
  tasks that had one.
\<close>

theorem delete_all_clears:
  assumes "redis_bounded r view rank"
  shows "\<exists>n eo w'. progress_delete_all r c w = Some ((n, eo), w')
    \<and> (\<forall>k. \<not> prefix progress_prefix k \<longrightarrow> view w' k = view w k)
    \<and> (eo = None \<longrightarrow> (\<forall>i. entries view w' i = Map.empty) \<and> n = card {i. entries view w i \<noteq> Map.empty})"
proof -
  obtain n eo w' kss where run: "progress_delete_all r c w = Some ((n, eo), w')" and cl: "cleared r view c 0 w kss n eo w'"
    using redis_bounded.delete_all_loop_correct [OF assms, of c 0 0 w] by (auto simp: progress_delete_all_def)
  have "\<forall>k. \<not> prefix progress_prefix k \<longrightarrow> view w' k = view w k"
    using cl by (auto simp: cleared_def del_view_def)
  with run cl redis_bounded.cleared_all [OF assms, of c w kss n w'] show ?thesis by blast
qed

theorem delete_all_clears_witness:
  "redis_bounded mem_client mem_view (\<lambda>_ cur. scan_slots - cur)
   \<and> (\<exists>n eo w'. progress_delete_all mem_client Live ex_redis = Some ((n, eo), w')
      \<and> mem_view w' ''asynq:queues'' = [''x'' \<mapsto> ''1''])"
  using delete_all_clears [OF mem.redis_bounded_axioms, of Live ex_redis] mem.redis_bounded_axioms
  by (force simp: progress_prefix_def mem_view_def ex_redis_def)

text \<open>
  C27. \<^verbatim>\<open>List\<close> returns whatever the server holds and changes nothing. Without an error its result shows
  every task that has an entry and no other, each as \<^verbatim>\<open>Get\<close> shows it (a task may appear more
  than once, since \<^verbatim>\<open>SCAN\<close> may repeat a key).
\<close>

theorem list_sound_and_complete:
  assumes "redis_bounded r view rank"
  shows "\<exists>x w'. progress_list pt r c w = Some (x, w') \<and> view w' = view w
    \<and> (\<forall>ps. x = Inr ps \<longrightarrow> ps = map (\<lambda>i. progress_view pt i (entries view w i)) (map tp_task_id ps)
         \<and> tp_task_id ` set ps = {i. entries view w i \<noteq> Map.empty})"
  by (rule redis_bounded.list_correct [OF assms])

theorem list_sound_and_complete_witness:
  "\<exists>x w'. progress_list no_time mem_client Live ex_redis = Some (x, w') \<and> mem_view w' = mem_view ex_redis"
  using list_sound_and_complete [OF mem.redis_bounded_axioms, of no_time Live ex_redis] by blast

lemma reconcile_effect:
  assumes "redis_bounded r view rank"
  shows "\<exists>n eo w' I. reconcile_stale_active pt r c w = Some ((n, eo), w')
    \<and> I \<subseteq> {i. entries view w i ''state'' = Some ''active''}
    \<and> entries view w' = (\<lambda>i. if i \<in> I then (entries view w i)(''state'' \<mapsto> ''failed'', ''error'' \<mapsto> stale_error) else entries view w i)
    \<and> (\<forall>k. \<not> prefix progress_prefix k \<longrightarrow> view w' k = view w k)
    \<and> (eo = None \<longrightarrow> I = {i. entries view w i ''state'' = Some ''active''} \<and> card I \<le> n
         \<and> (\<forall>i. entries view w' i ''state'' \<noteq> Some ''active''))"
proof -
  have ff: "m ++ failed_fields = m(''state'' \<mapsto> ''failed'', ''error'' \<mapsto> stale_error)" for m
    by (auto simp: fun_eq_iff map_add_def)
  obtain x w1 where l: "progress_list pt r c w = Some (x, w1)" "view w1 = view w"
    and ps: "\<And>ps. x = Inr ps \<Longrightarrow> ps = map (\<lambda>i. progress_view pt i (entries view w i)) (map tp_task_id ps)
         \<and> tp_task_id ` set ps = {i. entries view w i \<noteq> Map.empty}"
    using redis_bounded.list_correct [OF assms, of pt c w] by blast
  have E: "entries view w1 = entries view w" using l(2) by (simp add: entries_def [abs_def])
  show ?thesis
  proof (cases x)
    case (Inl e)
    with l E show ?thesis by (auto simp: reconcile_stale_active_def intro!: exI [of _ "{}"])
  next
    case (Inr ts)
    note ts = ps [OF Inr]
    have "tp_state t = str_of (entries view w (tp_task_id t) ''state'')" if "t \<in> set ts" for t
    proof -
      have "t \<in> set (map (\<lambda>i. progress_view pt i (entries view w i)) (map tp_task_id ts))" using that ts by simp
      then show ?thesis by auto
    qed
    then have "tp_task_id ` set (filter is_active ts) = {i \<in> tp_task_id ` set ts. str_of (entries view w i ''state'') = ''active''}"
      by (auto simp: is_active_def)
    then have act: "tp_task_id ` set (filter is_active ts) = {i. entries view w i ''state'' = Some ''active''}"
      using ts by (auto simp: str_of_def split: option.splits)
    obtain n eo w' where loop: "reconcile_loop r c ts 0 w1 = ((n, eo), w')" by (metis surj_pair)
    obtain I where I: "I \<subseteq> tp_task_id ` set (filter is_active ts)" "entries view w' = fail_entries I (entries view w)"
      "\<forall>k. \<not> prefix progress_prefix k \<longrightarrow> view w' k = view w k"
      "eo = None \<longrightarrow> I = tp_task_id ` set (filter is_active ts) \<and> n = length (filter is_active ts)"
      using redis_store.reconcile_loop_effect [OF redis_bounded.axioms(1) [OF assms] loop, unfolded E l(2) add_0_left] by blast
    have "card I \<le> n" if "eo = None"
      using I(4) that by (metis card_image_le card_length finite_set le_trans)
    moreover have "entries view w' i ''state'' \<noteq> Some ''active''" if "eo = None" for i
      using I(2,4) that act by auto
    ultimately show ?thesis
      using l(1) Inr loop I(1,3,4) I(2) [unfolded ff] unfolding act
      by (intro exI [of _ n] exI [of _ eo] exI [of _ w'] exI [of _ I]) (simp add: reconcile_stale_active_def)
  qed
qed

text \<open>
  C28. The reconciliation at boot (\<^verbatim>\<open>ReconcileStaleActive\<close>) returns; whatever its result, only
  entries in state \<^verbatim>\<open>active\<close> change, and those only in \<^verbatim>\<open>state\<close> and \<^verbatim>\<open>error\<close>. Without an error every
  one of them is now \<^verbatim>\<open>failed\<close> with the restart message, so none is \<^verbatim>\<open>active\<close>, and the count is at
  least the number of tasks that were.
\<close>

theorem reconcile_fails_exactly_active:
  assumes "redis_bounded r view rank"
  shows "\<exists>n eo w' I. reconcile_stale_active pt r c w = Some ((n, eo), w')
    \<and> I \<subseteq> {i. entries view w i ''state'' = Some ''active''}
    \<and> entries view w' = (\<lambda>i. if i \<in> I then (entries view w i)(''state'' \<mapsto> ''failed'', ''error'' \<mapsto> stale_error) else entries view w i)
    \<and> (\<forall>k. \<not> prefix progress_prefix k \<longrightarrow> view w' k = view w k)
    \<and> (eo = None \<longrightarrow> I = {i. entries view w i ''state'' = Some ''active''} \<and> card I \<le> n
         \<and> (\<forall>i. entries view w' i ''state'' \<noteq> Some ''active''))"
  using assms by (rule reconcile_effect)

theorem reconcile_fails_exactly_active_witness:
  "\<exists>n eo w' I. reconcile_stale_active no_time mem_client Live ex_redis = Some ((n, eo), w')
     \<and> I \<subseteq> {i. entries mem_view ex_redis i ''state'' = Some ''active''}
     \<and> mem_view w' ''asynq:queues'' = [''x'' \<mapsto> ''1'']"
  using reconcile_fails_exactly_active [OF mem.redis_bounded_axioms, of no_time Live ex_redis]
  by (force simp: progress_prefix_def mem_view_def ex_redis_def)

end
