(* ===== verification/Tsdb.thy ===== *)
theory Tsdb
  imports Strconv "HOL-Library.Word" "HOL-Library.Char_ord" "HOL-Library.List_Lexorder"
    "HOL-Library.Multiset"
begin

text \<open>
  The package \<^verbatim>\<open>internal/tsdb\<close>: the filtered reader (\<^verbatim>\<open>reader.go\<close>), the ways a provider is
  opened (\<^verbatim>\<open>provider.go\<close>) and the exported fakes (\<^verbatim>\<open>fakes.go\<close>).

  Prometheus itself is not part of the repository. Its iterators reach the reader as records
  of functions: \<open>iterator_ops\<close> is \<^verbatim>\<open>chunkenc.Iterator\<close>, \<open>series_ops\<close> is \<^verbatim>\<open>storage.SeriesSet\<close> with
  \<^verbatim>\<open>storage.Series\<close>, and \<open>provider_ops\<close> is \<^verbatim>\<open>QuerierProvider\<close> with \<^verbatim>\<open>storage.Querier\<close>. What the
  reader needs of them is stated by the locales \<open>sample_iterator\<close> and \<open>series_iteration\<close>, and the
  fakes are shown to satisfy both.
\<close>

section \<open>Data\<close>

text \<open>A sample's value is only carried, never computed with: the 64 bits of its encoding.\<close>

type_synonym float64 = "64 word"

record label =
  lname :: string
  lvalue :: string

record sample =
  timestamp :: int
  svalue :: float64

record series_data =
  sd_labels :: "label list"
  sd_samples :: "sample list"

record reader_config =
  rc_tsdb_path :: string
  rc_tenant_id :: string
  rc_min_time :: int
  rc_max_time :: int

datatype value_type = ValNone | ValFloat | ValHistogram | ValFloatHistogram

datatype matcher = MatchEqual string string | MatchRegexp string string

section \<open>The interfaces the reader calls\<close>

record 'it iterator_ops =
  it_next :: "'it \<Rightarrow> value_type \<times> 'it"
  it_at :: "'it \<Rightarrow> int \<times> float64"
  it_err :: "'it \<Rightarrow> goerr option"

record ('ss, 'se, 'it) series_ops =
  ss_next :: "'ss \<Rightarrow> bool \<times> 'ss"
  ss_at :: "'ss \<Rightarrow> 'se"
  ss_err :: "'ss \<Rightarrow> goerr option"
  se_labels :: "'se \<Rightarrow> label list"
  se_iterator :: "'se \<Rightarrow> 'it"

record ('p, 'q, 'ss) provider_ops =
  p_querier :: "'p \<Rightarrow> int \<Rightarrow> int \<Rightarrow> goerr + 'q"
  q_select :: "'q \<Rightarrow> matcher list \<Rightarrow> 'ss"

section \<open>Reader.Read\<close>

text \<open>
  The sample loop runs while \<^verbatim>\<open>Next\<close> says \<^verbatim>\<open>ValFloat\<close>; it may not end on an endless iterator.
\<close>

partial_function (option) read_samples ::
  "'it iterator_ops \<Rightarrow> 'it \<Rightarrow> sample list \<Rightarrow> (sample list \<times> 'it) option" where
  "read_samples ops it acc =
     (case it_next ops it of (v, it') \<Rightarrow>
        if v = ValFloat then
          (case it_at ops it' of (ts, val) \<Rightarrow>
             read_samples ops it' (acc @ [\<lparr>timestamp = ts, svalue = val\<rparr>]))
        else Some (acc, it'))"

text \<open>
  \<^verbatim>\<open>sort.Slice\<close> by label name. A label set has distinct names, so the result does not depend on
  the sort being stable (\<open>sort_labels_unique\<close> below).
\<close>

definition sort_labels :: "label list \<Rightarrow> label list" where
  "sort_labels ls = sort_key lname ls"

text \<open>
  The series loop. The context is consulted twice per series: by \<^verbatim>\<open>ctx.Err()\<close> and by the
  \<^verbatim>\<open>select\<close> around the send; \<open>c k\<close> is the answer of the \<open>k\<close>-th consultation, so \<open>c\<close> covers every
  moment of cancellation and every choice of the \<^verbatim>\<open>select\<close>. The result is what was sent on the
  channel and the error returned.
\<close>

partial_function (option) read_loop ::
  "('ss, 'se, 'it) series_ops \<Rightarrow> 'it iterator_ops \<Rightarrow> (nat \<Rightarrow> ctx) \<Rightarrow> 'ss \<Rightarrow> nat \<Rightarrow> series_data list
     \<Rightarrow> (series_data list \<times> goerr option) option" where
  "read_loop sops iops c ss seriesCount sent =
     (case ss_next sops ss of (hasNext, ss') \<Rightarrow>
        if \<not> hasNext then
          Some (sent, map_option (wrapf ''iterating series set: '') (ss_err sops ss'))
        else
          (case ctx_err (c (2 * seriesCount)) of
             Some e \<Rightarrow> Some (sent, Some e)
           | None \<Rightarrow>
               (let series = ss_at sops ss';
                    promLabels = sort_labels (se_labels sops series) in
                Option.bind (read_samples iops (se_iterator sops series) [])
                  (\<lambda>(samples, it').
                     case it_err iops it' of
                       Some e \<Rightarrow> Some (sent, Some (wrapf
                         (''iterating samples for series '' @ itoa (int seriesCount) @ '': '') e))
                     | None \<Rightarrow>
                         (case ctx_err (c (2 * seriesCount + 1)) of
                            Some e \<Rightarrow> Some (sent, Some e)
                          | None \<Rightarrow> read_loop sops iops c ss' (seriesCount + 1)
                              (sent @ [\<lparr>sd_labels = promLabels, sd_samples = samples\<rparr>]))))))"

definition reader_min_time :: "reader_config \<Rightarrow> int" where
  "reader_min_time cfg = (if rc_min_time cfg = 0 then min_int64 else rc_min_time cfg)"

definition reader_max_time :: "reader_config \<Rightarrow> int" where
  "reader_max_time cfg = (if rc_max_time cfg = 0 then max_int64 else rc_max_time cfg)"

definition reader_matchers :: "reader_config \<Rightarrow> matcher list" where
  "reader_matchers cfg =
     (if rc_tenant_id cfg \<noteq> [] then [MatchEqual ''projectId'' (rc_tenant_id cfg)]
      else [MatchRegexp ''__name__'' ''.+''])"

text \<open>
  What one call of \<^verbatim>\<open>Read\<close> leaves behind: the series sent, the error returned, and the trace of the
  resources it opened and closed. \<open>deferring\<close> is the idiom \<^verbatim>\<open>x, err := open(); if err ... ; defer x.Close()\<close>
  once the open has succeeded: the rest of the function runs, whatever it returns, and then the
  deferred call; nesting it gives the last-in first-out order of the deferred calls.
\<close>

datatype resource = DbRes | QuerierRes

datatype resource_event = Opened resource | Closed resource

record read_result =
  rr_sent :: "series_data list"
  rr_err :: "goerr option"
  rr_trace :: "resource_event list"

definition deferring :: "resource \<Rightarrow> read_result option \<Rightarrow> read_result option" where
  "deferring res body = map_option (rr_trace_update (\<lambda>tr. Opened res # tr @ [Closed res])) body"

definition read_with_provider ::
  "('p, 'q, 'ss) provider_ops \<Rightarrow> ('ss, 'se, 'it) series_ops \<Rightarrow> 'it iterator_ops \<Rightarrow> (nat \<Rightarrow> ctx)
     \<Rightarrow> reader_config \<Rightarrow> 'p \<Rightarrow> read_result option" where
  "read_with_provider pops sops iops c cfg provider =
     (let minT = reader_min_time cfg; maxT = reader_max_time cfg in
      case p_querier pops provider minT maxT of
        Inl e \<Rightarrow> Some \<lparr>rr_sent = [], rr_err = Some (wrapf (''creating querier ['' @ itoa minT
                    @ '', '' @ itoa maxT @ '']: '') e), rr_trace = []\<rparr>
      | Inr querier \<Rightarrow>
          deferring QuerierRes
            (map_option (\<lambda>(sent, e). \<lparr>rr_sent = sent, rr_err = e, rr_trace = []\<rparr>)
              (read_loop sops iops c (q_select pops querier (reader_matchers cfg)) 0 [])))"

text \<open>
  \<^verbatim>\<open>Read\<close> itself: with a nil provider the TSDB at \<^verbatim>\<open>TSDBPath\<close> is opened for this call. \<open>stat\<close> is
  \<^verbatim>\<open>os.Stat\<close>, \<open>open_db\<close> is \<^verbatim>\<open>promtsdb.Open\<close> and \<open>quote\<close> renders the \<^verbatim>\<open>%q\<close> of the messages.
\<close>

definition reader_read ::
  "(string \<Rightarrow> string) \<Rightarrow> (string \<Rightarrow> goerr option) \<Rightarrow> (string \<Rightarrow> goerr + 'p)
     \<Rightarrow> ('p, 'q, 'ss) provider_ops \<Rightarrow> ('ss, 'se, 'it) series_ops \<Rightarrow> 'it iterator_ops
     \<Rightarrow> (nat \<Rightarrow> ctx) \<Rightarrow> reader_config \<Rightarrow> 'p option \<Rightarrow> read_result option" where
  "reader_read quote stat open_db pops sops iops c cfg provider =
     (case provider of
        Some p \<Rightarrow> read_with_provider pops sops iops c cfg p
      | None \<Rightarrow>
          (case stat (rc_tsdb_path cfg) of
             Some e \<Rightarrow> Some \<lparr>rr_sent = [], rr_err = Some (wrapf (''tsdb path ''
                         @ quote (rc_tsdb_path cfg) @ '': '') e), rr_trace = []\<rparr>
           | None \<Rightarrow>
               (case open_db (rc_tsdb_path cfg) of
                  Inl e \<Rightarrow> Some \<lparr>rr_sent = [], rr_err = Some (wrapf (''opening TSDB at ''
                         @ quote (rc_tsdb_path cfg) @ '': '') e), rr_trace = []\<rparr>
                | Inr db \<Rightarrow>
                    deferring DbRes (read_with_provider pops sops iops c cfg db))))"

section \<open>provider.go\<close>

definition open_provider ::
  "(string \<Rightarrow> string) \<Rightarrow> (string \<Rightarrow> goerr option) \<Rightarrow> (string \<Rightarrow> goerr + 'p) \<Rightarrow> string \<Rightarrow> goerr + 'p" where
  "open_provider quote stat open_db path =
     (case stat path of
        Some e \<Rightarrow> Inl (wrapf (''tsdb path '' @ quote path @ '': '') e)
      | None \<Rightarrow>
          (case open_db path of
             Inl e \<Rightarrow> Inl (wrapf (''opening TSDB at '' @ quote path @ '': '') e)
           | Inr db \<Rightarrow> Inr db))"

text \<open>\<^verbatim>\<open>ReaderFromPath\<close> returns a reader over the opened DB: the provider and its configuration.\<close>

definition reader_from_path ::
  "(string \<Rightarrow> string) \<Rightarrow> (string \<Rightarrow> goerr option) \<Rightarrow> (string \<Rightarrow> goerr + 'p) \<Rightarrow> reader_config
     \<Rightarrow> goerr + ('p option \<times> reader_config)" where
  "reader_from_path quote stat open_db cfg =
     (case open_provider quote stat open_db (rc_tsdb_path cfg) of
        Inl e \<Rightarrow> Inl e
      | Inr db \<Rightarrow> Inr (Some db, cfg))"

section \<open>fakes.go\<close>

text \<open>
  The fakes that the tests of three packages inject. \<open>builder\<close> stands for Prometheus's
  \<^verbatim>\<open>labels.ScratchBuilder\<close> (\<^verbatim>\<open>Add\<close> every label, \<^verbatim>\<open>Sort\<close>, \<^verbatim>\<open>Labels\<close>). The indices start at -1, as in the
  code; \<^verbatim>\<open>At\<close> is only called after \<^verbatim>\<open>Next\<close> has answered true.
\<close>

record fake_provider =
  fp_series :: "series_data list"
  fp_querier_err :: "goerr option"

record fake_querier =
  fq_series :: "series_data list"

record fake_series_set =
  fss_series :: "series_data list"
  fss_idx :: int

record fake_iterator =
  fi_samples :: "sample list"
  fi_idx :: int

definition fake_provider_querier :: "fake_provider \<Rightarrow> int \<Rightarrow> int \<Rightarrow> goerr + fake_querier" where
  "fake_provider_querier f mint maxt =
     (case fp_querier_err f of Some e \<Rightarrow> Inl e | None \<Rightarrow> Inr \<lparr>fq_series = fp_series f\<rparr>)"

definition fake_querier_select :: "fake_querier \<Rightarrow> matcher list \<Rightarrow> fake_series_set" where
  "fake_querier_select q matchers = \<lparr>fss_series = fq_series q, fss_idx = -1\<rparr>"

definition fake_series_set_next :: "fake_series_set \<Rightarrow> bool \<times> fake_series_set" where
  "fake_series_set_next s =
     (let s' = s\<lparr>fss_idx := fss_idx s + 1\<rparr> in (fss_idx s' < int (length (fss_series s')), s'))"

definition fake_series_set_at :: "fake_series_set \<Rightarrow> series_data" where
  "fake_series_set_at s = fss_series s ! nat (fss_idx s)"

definition fake_series_iterator :: "series_data \<Rightarrow> fake_iterator" where
  "fake_series_iterator fs = \<lparr>fi_samples = sd_samples fs, fi_idx = -1\<rparr>"

definition fake_iterator_next :: "fake_iterator \<Rightarrow> value_type \<times> fake_iterator" where
  "fake_iterator_next it =
     (let it' = it\<lparr>fi_idx := fi_idx it + 1\<rparr>
      in (if int (length (fi_samples it')) \<le> fi_idx it' then ValNone else ValFloat, it'))"

definition fake_iterator_at :: "fake_iterator \<Rightarrow> int \<times> float64" where
  "fake_iterator_at it =
     (let s = fi_samples it ! nat (fi_idx it) in (timestamp s, svalue s))"

definition fake_provider_ops :: "(fake_provider, fake_querier, fake_series_set) provider_ops" where
  "fake_provider_ops = \<lparr>p_querier = fake_provider_querier, q_select = fake_querier_select\<rparr>"

definition fake_series_ops ::
  "(label list \<Rightarrow> label list) \<Rightarrow> (fake_series_set, series_data, fake_iterator) series_ops" where
  "fake_series_ops builder =
     \<lparr>ss_next = fake_series_set_next, ss_at = fake_series_set_at, ss_err = (\<lambda>_. None),
      se_labels = (\<lambda>fs. builder (sd_labels fs)), se_iterator = fake_series_iterator\<rparr>"

definition fake_iterator_ops :: "fake_iterator iterator_ops" where
  "fake_iterator_ops =
     \<lparr>it_next = fake_iterator_next, it_at = fake_iterator_at, it_err = (\<lambda>_. None)\<rparr>"

section \<open>What an iteration yields, as a list\<close>

text \<open>
  The specification of a read: the content of each series the set yields, and the reader as a
  function of that list. The samples of a series are its leading float values only.
\<close>

type_synonym chunk_value = "value_type \<times> int \<times> float64"

definition float_prefix :: "chunk_value list \<Rightarrow> sample list" where
  "float_prefix vs = map (\<lambda>(_, t, x). \<lparr>timestamp = t, svalue = x\<rparr>) (takeWhile (\<lambda>(v, _). v = ValFloat) vs)"

definition all_float :: "chunk_value list \<Rightarrow> bool" where
  "all_float vs = list_all (\<lambda>(v, _). v = ValFloat) vs"

record series_content =
  sc_labels :: "label list"
  sc_values :: "chunk_value list"
  sc_err :: "goerr option"

definition series_of :: "series_content \<Rightarrow> series_data" where
  "series_of x = \<lparr>sd_labels = sort_labels (sc_labels x), sd_samples = float_prefix (sc_values x)\<rparr>"

definition content_of ::
  "('ss, 'se, 'it) series_ops \<Rightarrow> ('it \<Rightarrow> chunk_value list) \<Rightarrow> ('it \<Rightarrow> goerr option) \<Rightarrow> 'se \<Rightarrow> series_content" where
  "content_of sops vals fin se =
     \<lparr>sc_labels = se_labels sops se, sc_values = vals (se_iterator sops se),
      sc_err = fin (se_iterator sops se)\<rparr>"

fun read_list :: "(nat \<Rightarrow> ctx) \<Rightarrow> nat \<Rightarrow> series_content list \<Rightarrow> goerr option \<Rightarrow> series_data list \<times> goerr option" where
  "read_list c k [] e = ([], map_option (wrapf ''iterating series set: '') e)"
| "read_list c k (x # xs) e =
     (case ctx_err (c (2 * k)) of
        Some d \<Rightarrow> ([], Some d)
      | None \<Rightarrow>
          (case (if all_float (sc_values x) then sc_err x else None) of
             Some d \<Rightarrow> ([], Some (wrapf (''iterating samples for series '' @ itoa (int k) @ '': '') d))
           | None \<Rightarrow>
               (case ctx_err (c (2 * k + 1)) of
                  Some d \<Rightarrow> ([], Some d)
                | None \<Rightarrow>
                    (let (s, r) = read_list c (k + 1) xs e in
                     (series_of x # s, r)))))"

text \<open>Every sample of a series, as if all were floats; for a series of floats the reader sends all of them.\<close>

definition all_samples :: "chunk_value list \<Rightarrow> sample list" where
  "all_samples vs = map (\<lambda>(_, t, x). \<lparr>timestamp = t, svalue = x\<rparr>) vs"

lemma float_prefix_all: "all_float vs \<Longrightarrow> float_prefix vs = all_samples vs"
  unfolding float_prefix_def all_samples_def all_float_def list_all_iff by (subst takeWhile_eq_all_conv [THEN iffD2]) auto

lemma float_prefix_simps [simp]:
  "float_prefix [] = []"
  "float_prefix ((ValFloat, t, x) # vs) = \<lparr>timestamp = t, svalue = x\<rparr> # float_prefix vs"
  "v \<noteq> ValFloat \<Longrightarrow> float_prefix ((v, p) # vs) = []"
  by (simp_all add: float_prefix_def)

lemma all_float_simps [simp]:
  "all_float []" "all_float ((v, p) # vs) \<longleftrightarrow> v = ValFloat \<and> all_float vs"
  by (simp_all add: all_float_def)

lemma float_prefix_floats:
  "float_prefix (map (\<lambda>s. (ValFloat, timestamp s, svalue s)) ss) = ss"
  by (induction ss) auto

lemma all_float_floats: "all_float (map (\<lambda>s. (ValFloat, timestamp s, svalue s)) ss)"
  by (induction ss) auto

section \<open>The contract of an iterator and of a series set\<close>

locale sample_iterator =
  fixes iops :: "'it iterator_ops"
    and it_inv :: "'it \<Rightarrow> bool"
    and vals :: "'it \<Rightarrow> chunk_value list"
    and fin :: "'it \<Rightarrow> goerr option"
  assumes next_end: "it_inv it \<Longrightarrow> vals it = [] \<Longrightarrow> it_next iops it = (v, it') \<Longrightarrow>
      v = ValNone \<and> it_err iops it' = fin it"
    and next_value: "it_inv it \<Longrightarrow> vals it = (w, p) # vs \<Longrightarrow> it_next iops it = (v, it') \<Longrightarrow>
      v = w \<and> v \<noteq> ValNone \<and> it_inv it' \<and> vals it' = vs \<and> fin it' = fin it
      \<and> it_err iops it' = None \<and> (v = ValFloat \<longrightarrow> it_at iops it' = p)"
begin

lemma read_samples_eq:
  "it_inv it \<Longrightarrow> \<exists>it'. read_samples iops it acc = Some (acc @ float_prefix (vals it), it')
     \<and> it_err iops it' = (if all_float (vals it) then fin it else None)"
proof (induction "vals it" arbitrary: it acc)
  case Nil
  obtain v it' where n: "it_next iops it = (v, it')" by fastforce
  with Nil next_end [of it v it'] have "v = ValNone" "it_err iops it' = fin it" by auto
  with n Nil show ?case by (simp add: read_samples.simps [of iops it])
next
  case (Cons x vs)
  obtain w t y where x: "x = (w, t, y)" by (cases x) auto
  obtain v it' where n: "it_next iops it = (v, it')" by fastforce
  from Cons.hyps(2) x have vals: "vals it = (w, t, y) # vs" by simp
  from next_value [OF Cons.prems vals n] have
    s: "v = w" "it_inv it'" "vals it' = vs" "fin it' = fin it" "it_err iops it' = None"
      "v = ValFloat \<longrightarrow> it_at iops it' = (t, y)" by auto
  show ?case
  proof (cases "w = ValFloat")
    case True
    with s n have "read_samples iops it acc = read_samples iops it' (acc @ [\<lparr>timestamp = t, svalue = y\<rparr>])"
      by (simp add: read_samples.simps [of iops it])
    with Cons.hyps(1) [of it' "acc @ [\<lparr>timestamp = t, svalue = y\<rparr>]"] s True vals
    show ?thesis by auto
  next
    case False
    with s n vals show ?thesis by (simp add: read_samples.simps [of iops it])
  qed
qed

end

locale series_iteration = sample_iterator iops it_inv vals fin
  for iops :: "'it iterator_ops" and it_inv vals fin +
  fixes sops :: "('ss, 'se, 'it) series_ops"
    and ss_inv :: "'ss \<Rightarrow> bool"
    and rest :: "'ss \<Rightarrow> 'se list"
    and ss_fin :: "'ss \<Rightarrow> goerr option"
  assumes set_end: "ss_inv ss \<Longrightarrow> rest ss = [] \<Longrightarrow> ss_next sops ss = (b, ss') \<Longrightarrow>
      \<not> b \<and> ss_err sops ss' = ss_fin ss"
    and set_next: "ss_inv ss \<Longrightarrow> rest ss = se # ses \<Longrightarrow> ss_next sops ss = (b, ss') \<Longrightarrow>
      b \<and> ss_inv ss' \<and> ss_at sops ss' = se \<and> rest ss' = ses \<and> ss_fin ss' = ss_fin ss"
    and iterator_inv: "it_inv (se_iterator sops se)"
begin

text \<open>The reader, run on any conforming series set, returns what \<open>read_list\<close> computes.\<close>

lemma read_loop_eq:
  "ss_inv ss \<Longrightarrow> read_loop sops iops c ss k sent =
     (let (s, r) = read_list c k (map (content_of sops vals fin) (rest ss)) (ss_fin ss)
      in Some (sent @ s, r))"
proof (induction "rest ss" arbitrary: ss k sent)
  case Nil
  obtain b ss' where n: "ss_next sops ss = (b, ss')" by fastforce
  with Nil set_end [of ss b ss'] have "\<not> b" "ss_err sops ss' = ss_fin ss" by auto
  with n Nil show ?case by (simp add: read_loop.simps [of sops iops c ss] flip: Nil(1))
next
  case (Cons se ses)
  obtain b ss' where n: "ss_next sops ss = (b, ss')" by fastforce
  from set_next [OF Cons.prems Cons.hyps(2) [symmetric] n] have
    s: "b" "ss_inv ss'" "ss_at sops ss' = se" "rest ss' = ses" "ss_fin ss' = ss_fin ss" by auto
  obtain it' where it: "read_samples iops (se_iterator sops se) []
      = Some (float_prefix (vals (se_iterator sops se)), it')"
    "it_err iops it' = (if all_float (vals (se_iterator sops se)) then fin (se_iterator sops se) else None)"
    using read_samples_eq [OF iterator_inv [of se], of "[]"] by auto
  show ?case
    using Cons.hyps(1) [of ss' "k + 1"] s it
    by (simp add: read_loop.simps [of sops iops c ss] n Let_def Cons.hyps(2) [symmetric]
        content_of_def series_of_def split: option.splits prod.splits)
qed

end

section \<open>The fakes keep the contract\<close>

definition fake_it_inv :: "fake_iterator \<Rightarrow> bool" where
  "fake_it_inv it \<longleftrightarrow> -1 \<le> fi_idx it"

definition fake_it_vals :: "fake_iterator \<Rightarrow> chunk_value list" where
  "fake_it_vals it =
     map (\<lambda>s. (ValFloat, timestamp s, svalue s)) (drop (nat (fi_idx it + 1)) (fi_samples it))"

definition fake_ss_inv :: "fake_series_set \<Rightarrow> bool" where
  "fake_ss_inv s \<longleftrightarrow> -1 \<le> fss_idx s"

definition fake_ss_rest :: "fake_series_set \<Rightarrow> series_data list" where
  "fake_ss_rest s = drop (nat (fss_idx s + 1)) (fss_series s)"

lemma drop_eq_Cons_nthD: "drop i xs = y # ys \<Longrightarrow> i < length xs \<and> xs ! i = y \<and> drop (Suc i) xs = ys"
  by (metis Cons_nth_drop_Suc drop_all linorder_not_le list.inject list.distinct(1))

lemma fake_idx_nat: "-1 \<le> (i::int) \<Longrightarrow> nat (2 + i) = Suc (nat (i + 1))"
  by simp

interpretation fake_it: sample_iterator fake_iterator_ops fake_it_inv fake_it_vals "\<lambda>_. None"
proof
  fix it v it'
  assume "fake_it_inv it" "fake_it_vals it = []" "it_next fake_iterator_ops it = (v, it')"
  then show "v = ValNone \<and> it_err fake_iterator_ops it' = None"
    by (auto simp: fake_it_vals_def fake_iterator_ops_def fake_iterator_next_def Let_def fake_it_inv_def)
next
  fix it :: fake_iterator and w p vs v it'
  assume inv: "fake_it_inv it" and vals: "fake_it_vals it = (w, p) # vs"
    and n: "it_next fake_iterator_ops it = (v, it')"
  obtain s ss where d: "drop (nat (fi_idx it + 1)) (fi_samples it) = s # ss"
    using vals by (auto simp: fake_it_vals_def)
  from drop_eq_Cons_nthD [OF d] have *: "nat (fi_idx it + 1) < length (fi_samples it)"
    "fi_samples it ! nat (fi_idx it + 1) = s" "drop (Suc (nat (fi_idx it + 1))) (fi_samples it) = ss" by auto
  have "v = ValFloat" "it' = it\<lparr>fi_idx := fi_idx it + 1\<rparr>"
    using n * inv by (auto simp: fake_iterator_ops_def fake_iterator_next_def Let_def fake_it_inv_def)
  then show "v = w \<and> v \<noteq> ValNone \<and> fake_it_inv it' \<and> fake_it_vals it' = vs \<and> None = None
      \<and> it_err fake_iterator_ops it' = None \<and> (v = ValFloat \<longrightarrow> it_at fake_iterator_ops it' = p)"
    using * d vals inv
    by (auto simp: fake_it_inv_def fake_it_vals_def fake_iterator_ops_def fake_iterator_at_def
        fake_idx_nat Let_def)
qed

interpretation fake_ss: series_iteration fake_iterator_ops fake_it_inv fake_it_vals "\<lambda>_. None"
  "fake_series_ops builder" fake_ss_inv fake_ss_rest "\<lambda>_. None" for builder
proof
  fix ss b ss'
  assume "fake_ss_inv ss" "fake_ss_rest ss = []" "ss_next (fake_series_ops builder) ss = (b, ss')"
  then show "\<not> b \<and> ss_err (fake_series_ops builder) ss' = None"
    by (auto simp: fake_ss_rest_def fake_series_ops_def fake_series_set_next_def Let_def fake_ss_inv_def)
next
  fix ss :: fake_series_set and se ses b ss'
  assume inv: "fake_ss_inv ss" and d: "fake_ss_rest ss = se # ses"
    and n: "ss_next (fake_series_ops builder) ss = (b, ss')"
  from drop_eq_Cons_nthD [OF d [unfolded fake_ss_rest_def]]
  have *: "nat (fss_idx ss + 1) < length (fss_series ss)" "fss_series ss ! nat (fss_idx ss + 1) = se"
    "drop (Suc (nat (fss_idx ss + 1))) (fss_series ss) = ses" by auto
  have "b" "ss' = ss\<lparr>fss_idx := fss_idx ss + 1\<rparr>"
    using n * inv by (auto simp: fake_series_ops_def fake_series_set_next_def Let_def fake_ss_inv_def)
  then show "b \<and> fake_ss_inv ss' \<and> ss_at (fake_series_ops builder) ss' = se
      \<and> fake_ss_rest ss' = ses \<and> None = None"
    using * inv by (auto simp: fake_ss_inv_def fake_ss_rest_def fake_series_ops_def
        fake_series_set_at_def fake_idx_nat)
next
  fix se
  show "fake_it_inv (se_iterator (fake_series_ops builder) se)"
    by (simp add: fake_series_ops_def fake_series_iterator_def fake_it_inv_def)
qed

section \<open>Facts about the list reader\<close>

lemma mset_sort_labels [simp]: "mset (sort_labels ls) = mset ls"
  by (simp add: sort_labels_def)

lemma set_sort_labels [simp]: "set (sort_labels ls) = set ls"
  by (simp add: sort_labels_def)

lemma sorted_sort_labels: "sorted (map lname (sort_labels ls))"
  by (simp add: sort_labels_def)

lemma sort_labels_unique:
  assumes "distinct (map lname ls)" "mset xs = mset ls" "sorted (map lname xs)"
  shows "xs = sort_labels ls"
  unfolding sort_labels_def
proof (rule properties_for_sort_key [symmetric])
  have "inj_on lname (set ls)" using assms(1) by (simp add: distinct_map)
  have dl: "distinct ls" using assms(1) by (simp add: distinct_map)
  then have dx: "distinct xs" using assms(2) by (metis mset_eq_imp_distinct_iff)
  fix k assume "k \<in> set xs"
  then have "k \<in> set ls" using assms(2) by (metis set_mset_mset)
  have one: "filter (\<lambda>x. lname k = lname x) ys = [k]" if "mset ys = mset ls" for ys
  proof -
    have "set ys = set ls" "distinct ys" using that dl
      by (auto dest: mset_eq_setD mset_eq_imp_distinct_iff)
    then have "set (filter (\<lambda>x. lname k = lname x) ys) = {k}"
      using \<open>k \<in> set ls\<close> \<open>inj_on lname (set ls)\<close> by (auto dest: inj_onD)
    with \<open>distinct ys\<close> show ?thesis by (intro distinct_set_singleton) auto
  qed
  show "filter (\<lambda>x. lname k = lname x) xs = filter (\<lambda>x. lname k = lname x) ls"
    using one [of xs] one [of ls] assms(2) by simp
qed (use assms in auto)

lemma read_list_prefix:
  "\<exists>n \<le> length xs. fst (read_list c k xs e) = map series_of (take n xs)
     \<and> (snd (read_list c k xs e) = None \<longrightarrow> n = length xs)"
proof (induction xs arbitrary: k)
  case Nil
  show ?case by simp
next
  case (Cons x xs)
  obtain n where n: "n \<le> length xs" "fst (read_list c (k + 1) xs e) = map series_of (take n xs)"
    "snd (read_list c (k + 1) xs e) = None \<longrightarrow> n = length xs" using Cons.IH by blast
  let ?go = "fst (read_list c k (x # xs) e) = series_of x # fst (read_list c (k + 1) xs e)
     \<and> snd (read_list c k (x # xs) e) = snd (read_list c (k + 1) xs e)"
  have "?go \<or> fst (read_list c k (x # xs) e) = [] \<and> snd (read_list c k (x # xs) e) \<noteq> None"
    by (auto split: option.splits prod.splits)
  then show ?case
  proof
    assume ?go
    with n show ?thesis by (intro exI [of _ "Suc n"]) simp
  next
    assume "fst (read_list c k (x # xs) e) = [] \<and> snd (read_list c k (x # xs) e) \<noteq> None"
    then show ?thesis by (intro exI [of _ 0]) simp
  qed
qed

lemma read_list_complete:
  assumes "\<And>i. c i = Live" "\<forall>x \<in> set xs. sc_err x = None \<or> \<not> all_float (sc_values x)"
  shows "read_list c k xs e = (map series_of xs, map_option (wrapf ''iterating series set: '') e)"
  using assms(2) by (induction xs arbitrary: k) (auto simp: assms(1) ctx_err_def)

lemma fake_contents [simp]:
  "content_of (fake_series_ops builder) fake_it_vals (\<lambda>_. None) sd =
   \<lparr>sc_labels = builder (sd_labels sd),
    sc_values = map (\<lambda>s. (ValFloat, timestamp s, svalue s)) (sd_samples sd), sc_err = None\<rparr>"
  by (simp add: content_of_def fake_series_ops_def fake_series_iterator_def fake_it_vals_def)

section \<open>A series set given by a list\<close>

text \<open>
  A reference implementation of the iterator interfaces over plain lists: it can yield native
  histograms and apply matchers, which the fakes cannot.
\<close>

type_synonym list_iterator = "chunk_value option \<times> chunk_value list"
type_synonym list_series_set = "series_content option \<times> series_content list"

definition list_iterator_ops :: "list_iterator iterator_ops" where
  "list_iterator_ops =
     \<lparr>it_next = (\<lambda>(_, xs). case xs of [] \<Rightarrow> (ValNone, (None, [])) | x # ys \<Rightarrow> (fst x, (Some x, ys))),
      it_at = (\<lambda>(x, _). case x of None \<Rightarrow> (0, 0) | Some y \<Rightarrow> snd y),
      it_err = (\<lambda>_. None)\<rparr>"

definition list_series_ops :: "(list_series_set, series_content, list_iterator) series_ops" where
  "list_series_ops =
     \<lparr>ss_next = (\<lambda>(_, xs). case xs of [] \<Rightarrow> (False, (None, [])) | x # ys \<Rightarrow> (True, (Some x, ys))),
      ss_at = (\<lambda>(x, _). case x of None \<Rightarrow> \<lparr>sc_labels = [], sc_values = [], sc_err = None\<rparr> | Some y \<Rightarrow> y),
      ss_err = (\<lambda>_. None), se_labels = sc_labels,
      se_iterator = (\<lambda>x. (None, filter (\<lambda>(v, _). v \<noteq> ValNone) (sc_values x)))\<rparr>"

definition list_it_inv :: "list_iterator \<Rightarrow> bool" where
  "list_it_inv it = list_all (\<lambda>(v, _). v \<noteq> ValNone) (snd it)"

interpretation list_src: series_iteration list_iterator_ops list_it_inv snd "\<lambda>_. None"
  list_series_ops "\<lambda>_. True" snd "\<lambda>_. None"
  by unfold_locales
    (auto simp: list_iterator_ops_def list_series_ops_def list_it_inv_def list_all_iff
      split: prod.splits list.splits)

definition matches_all :: "matcher list \<Rightarrow> label list \<Rightarrow> bool" where
  "matches_all ms ls = list_all (\<lambda>m. case m of
       MatchEqual n v \<Rightarrow> \<lparr>lname = n, lvalue = v\<rparr> \<in> set ls | MatchRegexp n r \<Rightarrow> True) ms"

definition list_provider_ops :: "(series_content list, series_content list, list_series_set) provider_ops" where
  "list_provider_ops =
     \<lparr>p_querier = (\<lambda>p _ _. Inr p),
      q_select = (\<lambda>q ms. (None, filter (\<lambda>x. matches_all ms (sc_labels x)) q))\<rparr>"

section \<open>Properties of the reader\<close>

lemma read_with_provider_conforming:
  assumes "series_iteration iops it_inv vals fin sops ss_inv rest ss_fin"
    and "p_querier pops p (reader_min_time cfg) (reader_max_time cfg) = Inr q"
    and "ss_inv (q_select pops q (reader_matchers cfg))"
  shows "read_with_provider pops sops iops c cfg p =
    (let ss = q_select pops q (reader_matchers cfg);
         (s, r) = read_list c 0 (map (content_of sops vals fin) (rest ss)) (ss_fin ss)
     in Some \<lparr>rr_sent = s, rr_err = r, rr_trace = [Opened QuerierRes, Closed QuerierRes]\<rparr>)"
  using series_iteration.read_loop_eq [OF assms(1) assms(3), of c 0 "[]"] assms(2)
  by (simp add: read_with_provider_def deferring_def Let_def split: prod.splits)

text \<open>
  C12. On every provider whose series set and iterators keep the iteration contract, and under
  every pattern of cancellation, \<^verbatim>\<open>Reader.Read\<close> returns, and what it sends and the error it
  returns are those of the list reader run on the content of the selected series.
\<close>

theorem reader_refines_list_reader:
  assumes "series_iteration iops it_inv vals fin sops ss_inv rest ss_fin"
    and "p_querier pops p (reader_min_time cfg) (reader_max_time cfg) = Inr q"
    and "ss_inv (q_select pops q (reader_matchers cfg))"
  shows "\<exists>r. reader_read quote stat open_db pops sops iops c cfg (Some p) = Some r
    \<and> (rr_sent r, rr_err r) =
      read_list c 0 (map (content_of sops vals fin) (rest (q_select pops q (reader_matchers cfg))))
        (ss_fin (q_select pops q (reader_matchers cfg)))"
  using read_with_provider_conforming [OF assms, of c]
  by (auto simp: reader_read_def Let_def split: prod.splits)

definition ex_labels :: "label list" where
  "ex_labels = [\<lparr>lname = ''projectId'', lvalue = ''t1''\<rparr>, \<lparr>lname = ''__name__'', lvalue = ''up''\<rparr>]"

definition ex_series :: series_data where
  "ex_series = \<lparr>sd_labels = ex_labels, sd_samples = [\<lparr>timestamp = 1, svalue = 7\<rparr>, \<lparr>timestamp = 2, svalue = 8\<rparr>]\<rparr>"

definition ex_cfg :: reader_config where
  "ex_cfg = \<lparr>rc_tsdb_path = [], rc_tenant_id = ''t1'', rc_min_time = 0, rc_max_time = 0\<rparr>"

definition ex_fake :: fake_provider where
  "ex_fake = \<lparr>fp_series = [ex_series], fp_querier_err = None\<rparr>"

lemma ex_sorted_labels [simp]: "sort_labels ex_labels = rev ex_labels"
  by (simp add: sort_labels_def ex_labels_def)

theorem reader_refines_list_reader_witness:
  "\<exists>r. reader_read id (\<lambda>_. None) (\<lambda>_. Inl (errors_new [])) fake_provider_ops (fake_series_ops id) fake_iterator_ops
      (\<lambda>_. Live) ex_cfg (Some ex_fake) = Some r
    \<and> rr_sent r = [\<lparr>sd_labels = rev ex_labels, sd_samples = sd_samples ex_series\<rparr>] \<and> rr_err r = None"
proof -
  let ?q = "\<lparr>fq_series = [ex_series]\<rparr>"
  have q: "p_querier fake_provider_ops ex_fake (reader_min_time ex_cfg) (reader_max_time ex_cfg) = Inr ?q"
    by (simp add: fake_provider_ops_def fake_provider_querier_def ex_fake_def)
  have i: "fake_ss_inv (q_select fake_provider_ops ?q (reader_matchers ex_cfg))"
    by (simp add: fake_provider_ops_def fake_querier_select_def fake_ss_inv_def)
  show ?thesis
    using reader_refines_list_reader [OF fake_ss.series_iteration_axioms q i, of id "\<lambda>_. None" "\<lambda>_. Inl (errors_new [])" id "\<lambda>_. Live"]
    by (simp add: fake_provider_ops_def fake_querier_select_def fake_ss_rest_def
        ctx_err_def all_float_floats float_prefix_floats series_of_def)
       (simp add: ex_series_def)
qed

text \<open>
  C36. Whatever the cancellation, what is sent is a prefix of the selected series in their
  order, each with its labels sorted by name (Mimir rejects unsorted label sets), no label added, lost
  or changed, and its samples up to the first histogram sample; if \<^verbatim>\<open>Read\<close> returns nil, no selected series
  is missing.
\<close>

theorem reader_sends_sorted_prefix:
  assumes "series_iteration iops it_inv vals fin sops ss_inv rest ss_fin"
    and "p_querier pops p (reader_min_time cfg) (reader_max_time cfg) = Inr q"
    and "ss_inv (q_select pops q (reader_matchers cfg))"
  shows "\<exists>r n. reader_read quote stat open_db pops sops iops c cfg (Some p) = Some r
    \<and> list_all2 (\<lambda>sd se. sorted (map lname (sd_labels sd)) \<and> mset (sd_labels sd) = mset (se_labels sops se)
          \<and> sd_samples sd = float_prefix (vals (se_iterator sops se)))
        (rr_sent r) (take n (rest (q_select pops q (reader_matchers cfg))))
    \<and> (rr_err r = None \<longrightarrow> length (rest (q_select pops q (reader_matchers cfg))) \<le> n)"
proof -
  let ?ss = "q_select pops q (reader_matchers cfg)"
  let ?l = "read_list c 0 (map (content_of sops vals fin) (rest ?ss)) (ss_fin ?ss)"
  have r: "reader_read quote stat open_db pops sops iops c cfg (Some p) =
      Some \<lparr>rr_sent = fst ?l, rr_err = snd ?l, rr_trace = [Opened QuerierRes, Closed QuerierRes]\<rparr>"
    using read_with_provider_conforming [OF assms, of c]
    by (simp add: reader_read_def Let_def split: prod.splits)
  obtain n where n: "fst ?l = map series_of (take n (map (content_of sops vals fin) (rest ?ss)))"
    "snd ?l = None \<longrightarrow> n = length (rest ?ss)"
    using read_list_prefix [of "map (content_of sops vals fin) (rest ?ss)" c 0 "ss_fin ?ss"] by auto
  have "list_all2 (\<lambda>sd se. sorted (map lname (sd_labels sd)) \<and> mset (sd_labels sd) = mset (se_labels sops se)
      \<and> sd_samples sd = float_prefix (vals (se_iterator sops se))) (fst ?l) (take n (rest ?ss))"
    by (simp add: n(1) list_all2_conv_all_nth series_of_def content_of_def sorted_sort_labels)
  then show ?thesis using r n(2) by auto
qed

theorem reader_sends_sorted_prefix_witness:
  "\<exists>r n. reader_read id (\<lambda>_. None) (\<lambda>_. Inl (errors_new [])) fake_provider_ops (fake_series_ops id) fake_iterator_ops
      (\<lambda>_. Live) ex_cfg (Some ex_fake) = Some r
    \<and> list_all2 (\<lambda>sd se. sorted (map lname (sd_labels sd)) \<and> mset (sd_labels sd) = mset (sd_labels se)
          \<and> sd_samples sd = sd_samples se) (rr_sent r) (take n [ex_series])"
proof -
  let ?q = "\<lparr>fq_series = [ex_series]\<rparr>"
  have q: "p_querier fake_provider_ops ex_fake (reader_min_time ex_cfg) (reader_max_time ex_cfg) = Inr ?q"
    by (simp add: fake_provider_ops_def fake_provider_querier_def ex_fake_def)
  have i: "fake_ss_inv (q_select fake_provider_ops ?q (reader_matchers ex_cfg))"
    by (simp add: fake_provider_ops_def fake_querier_select_def fake_ss_inv_def)
  have rest: "fake_ss_rest (q_select fake_provider_ops ?q (reader_matchers ex_cfg)) = [ex_series]"
    by (simp add: fake_provider_ops_def fake_querier_select_def fake_ss_rest_def)
  have v: "float_prefix (fake_it_vals (se_iterator (fake_series_ops id) se)) = sd_samples se"
    "se_labels (fake_series_ops id) se = sd_labels se" for se
    by (simp_all add: fake_series_ops_def fake_series_iterator_def fake_it_vals_def float_prefix_floats)
  show ?thesis
    using reader_sends_sorted_prefix [OF fake_ss.series_iteration_axioms q i, of id "\<lambda>_. None" "\<lambda>_. Inl (errors_new [])" id "\<lambda>_. Live"]
    unfolding rest v by blast
qed

text \<open>
  What Prometheus documents of an equality matcher with a non-empty value: every series that
  \<^verbatim>\<open>Select\<close> yields carries the label.
\<close>

definition select_honours_matchers ::
  "('p, 'q, 'ss) provider_ops \<Rightarrow> ('ss, 'se, 'it) series_ops \<Rightarrow> ('ss \<Rightarrow> 'se list) \<Rightarrow> 'q \<Rightarrow> bool" where
  "select_honours_matchers pops sops rest q \<longleftrightarrow>
     (\<forall>ms n v se. MatchEqual n v \<in> set ms \<longrightarrow> v \<noteq> [] \<longrightarrow> se \<in> set (rest (q_select pops q ms))
        \<longrightarrow> \<lparr>lname = n, lvalue = v\<rparr> \<in> set (se_labels sops se))"

lemma list_provider_honours_matchers:
  "select_honours_matchers list_provider_ops list_series_ops snd q"
  by (auto simp: select_honours_matchers_def list_provider_ops_def list_series_ops_def matches_all_def
      list_all_iff dest: bspec)

text \<open>
  C33. Tenant isolation of the reader: with a tenant configured, on a provider that honours
  equality matchers, every series the reader sends carries \<^verbatim>\<open>projectId\<close> equal to that tenant.
\<close>

theorem reader_tenant_isolation:
  assumes "series_iteration iops it_inv vals fin sops ss_inv rest ss_fin"
    and "p_querier pops p (reader_min_time cfg) (reader_max_time cfg) = Inr q"
    and "ss_inv (q_select pops q (reader_matchers cfg))"
    and "select_honours_matchers pops sops rest q"
    and "rc_tenant_id cfg \<noteq> []"
  shows "\<exists>r. reader_read quote stat open_db pops sops iops c cfg (Some p) = Some r
    \<and> (\<forall>sd \<in> set (rr_sent r). \<lparr>lname = ''projectId'', lvalue = rc_tenant_id cfg\<rparr> \<in> set (sd_labels sd))"
proof -
  let ?ss = "q_select pops q (reader_matchers cfg)"
  let ?xs = "map (content_of sops vals fin) (rest ?ss)"
  have has: "\<lparr>lname = ''projectId'', lvalue = rc_tenant_id cfg\<rparr> \<in> set (se_labels sops se)"
    if "se \<in> set (rest ?ss)" for se
  proof -
    have "MatchEqual ''projectId'' (rc_tenant_id cfg) \<in> set (reader_matchers cfg)"
      using assms(5) by (simp add: reader_matchers_def)
    then show ?thesis using assms(4,5) that unfolding select_honours_matchers_def by blast
  qed
  obtain n where n: "fst (read_list c 0 ?xs (ss_fin ?ss)) = map series_of (take n ?xs)"
    using read_list_prefix [of ?xs c 0 "ss_fin ?ss"] by auto
  then have "\<forall>sd \<in> set (fst (read_list c 0 ?xs (ss_fin ?ss))).
      \<lparr>lname = ''projectId'', lvalue = rc_tenant_id cfg\<rparr> \<in> set (sd_labels sd)"
    by (auto simp: series_of_def content_of_def dest!: in_set_takeD intro!: has)
  then show ?thesis using read_with_provider_conforming [OF assms(1-3), of c]
    by (auto simp: reader_read_def Let_def split: prod.splits)
qed

theorem reader_tenant_isolation_witness:
  "\<exists>r. reader_read id (\<lambda>_. None) (\<lambda>_. Inl (errors_new [])) list_provider_ops list_series_ops list_iterator_ops (\<lambda>_. Live) ex_cfg
      (Some [\<lparr>sc_labels = ex_labels, sc_values = [], sc_err = None\<rparr>,
             \<lparr>sc_labels = [\<lparr>lname = ''projectId'', lvalue = ''t2''\<rparr>], sc_values = [], sc_err = None\<rparr>]) = Some r
    \<and> (\<forall>sd \<in> set (rr_sent r). \<lparr>lname = ''projectId'', lvalue = ''t1''\<rparr> \<in> set (sd_labels sd))"
proof -
  let ?p = "[\<lparr>sc_labels = ex_labels, sc_values = [], sc_err = None\<rparr>,
     \<lparr>sc_labels = [\<lparr>lname = ''projectId'', lvalue = ''t2''\<rparr>], sc_values = [], sc_err = None\<rparr>]"
  have q: "p_querier list_provider_ops ?p (reader_min_time ex_cfg) (reader_max_time ex_cfg) = Inr ?p"
    by (simp add: list_provider_ops_def)
  have t: "rc_tenant_id ex_cfg \<noteq> []" by (simp add: ex_cfg_def)
  show ?thesis
    using reader_tenant_isolation [OF list_src.series_iteration_axioms q TrueI list_provider_honours_matchers t, of id "\<lambda>_. None" "\<lambda>_. Inl (errors_new [])" "\<lambda>_. Live"]
    by (simp add: ex_cfg_def)
qed

text \<open>
  The sample loop stops at the first value that is not a float: on a series that mixes
  floats with native histograms, \<^verbatim>\<open>Read\<close> sends only the floats before the first histogram and
  returns nil, so everything after it is lost without an error.
\<close>

theorem reader_drops_after_histogram:
  "\<exists>r. reader_read quote stat open_db list_provider_ops list_series_ops list_iterator_ops (\<lambda>_. Live)
      \<lparr>rc_tsdb_path = [], rc_tenant_id = [], rc_min_time = 0, rc_max_time = 0\<rparr>
      (Some [\<lparr>sc_labels = ls, sc_values = map (\<lambda>s. (ValFloat, timestamp s, svalue s)) before
           @ (ValHistogram, h) # map (\<lambda>s. (ValFloat, timestamp s, svalue s)) after, sc_err = None\<rparr>]) = Some r
    \<and> rr_err r = None \<and> rr_sent r = [\<lparr>sd_labels = sort_labels ls, sd_samples = before\<rparr>]"
proof -
  let ?cfg = "\<lparr>rc_tsdb_path = [], rc_tenant_id = [], rc_min_time = 0, rc_max_time = 0\<rparr>"
  let ?x = "\<lparr>sc_labels = ls, sc_values = map (\<lambda>s. (ValFloat, timestamp s, svalue s)) before
     @ (ValHistogram, h) # map (\<lambda>s. (ValFloat, timestamp s, svalue s)) after, sc_err = None\<rparr>"
  have q: "p_querier list_provider_ops [?x] (reader_min_time ?cfg) (reader_max_time ?cfg) = Inr [?x]"
    by (simp add: list_provider_ops_def)
  have f: "float_prefix (map (\<lambda>s. (ValFloat, timestamp s, svalue s)) before @ (ValHistogram, h) # vs) = before" for vs
    by (induction before) auto
  have a: "\<not> all_float (map (\<lambda>s. (ValFloat, timestamp s, svalue s)) before @ (ValHistogram, h) # vs)" for vs
    by (simp add: all_float_def)
  have "filter (\<lambda>(v, _). v \<noteq> ValNone) (sc_values ?x) = sc_values ?x"
    by (auto intro!: filter_True)
  then show ?thesis
    using read_with_provider_conforming [OF list_src.series_iteration_axioms q TrueI, of "\<lambda>_. Live"]
    by (simp add: reader_read_def list_provider_ops_def list_series_ops_def matches_all_def
        reader_matchers_def content_of_def series_of_def ctx_err_def f a)
qed

end
