(* ===== verification/Batcher.thy ===== *)
theory Batcher
  imports Tsdb
begin

text \<open>
  The byte-budget batcher of \<^verbatim>\<open>migration.Run\<close> (the second goroutine of \<^verbatim>\<open>pipeline.go\<close>) as a
  sequential function: what it does with one series from the channel, how it splits a series
  that exceeds the budget, and what it flushes at the end.

  \<open>sz\<close> stands for \<^verbatim>\<open>prompb.TimeSeries.Size\<close>, generated code outside the repository; no property
  below assumes anything about it. Sizes and counts are natural numbers: the code adds and
  divides only non-negative values, each bounded by the memory that holds the series.
\<close>

record timeseries =
  ts_labels :: "label list"
  ts_samples :: "sample list"

type_synonym batch = "timeseries list"
type_synonym size_fn = "timeseries \<Rightarrow> nat"

section \<open>Splitting an oversize series\<close>

definition samples_per_chunk :: "size_fn \<Rightarrow> nat \<Rightarrow> series_data \<Rightarrow> nat" where
  "samples_per_chunk sz maxBatchBytes sd =
     (let seriesBytes = sz \<lparr>ts_labels = sd_labels sd, ts_samples = sd_samples sd\<rparr>;
          avg = seriesBytes div length (sd_samples sd);
          avgSampleBytes = (if avg < 1 then 1 else avg);
          spc = maxBatchBytes div avgSampleBytes
      in if spc < 1 then 1 else spc)"

definition window :: "series_data \<Rightarrow> nat \<Rightarrow> nat \<Rightarrow> timeseries" where
  "window sd offset end = \<lparr>ts_labels = sd_labels sd, ts_samples = take (end - offset) (drop offset (sd_samples sd))\<rparr>"

text \<open>The inner loop: halve the window until it fits or holds a single sample.\<close>

function halve_window :: "size_fn \<Rightarrow> nat \<Rightarrow> series_data \<Rightarrow> nat \<Rightarrow> nat \<Rightarrow> nat" where
  "halve_window sz maxBatchBytes sd offset end =
     (if maxBatchBytes < sz (window sd offset end) \<and> 1 < end - offset
      then halve_window sz maxBatchBytes sd offset (offset + (end - offset) div 2)
      else end)"
  by pat_completeness auto
termination
  by (relation "measure (\<lambda>(_, _, _, offset, end). end - offset)") auto

declare halve_window.simps [simp del]

lemma samples_per_chunk_pos: "1 \<le> samples_per_chunk sz maxB sd"
  by (simp add: samples_per_chunk_def Let_def)

lemma halve_window_bounds:
  "offset < end \<Longrightarrow> offset < halve_window sz maxB sd offset end \<and> halve_window sz maxB sd offset end \<le> end"
proof (induction sz maxB sd offset "end" rule: halve_window.induct)
  case (1 sz maxB sd offset "end")
  show ?case
  proof (cases "maxB < sz (window sd offset end) \<and> 1 < end - offset")
    case True
    then have "offset < offset + (end - offset) div 2" "offset + (end - offset) div 2 \<le> end" by auto
    with True "1.IH" show ?thesis by (simp add: halve_window.simps [of sz maxB sd offset "end"])
  next
    case False
    with "1.prems" show ?thesis by (auto simp: halve_window.simps [of sz maxB sd offset "end"])
  qed
qed

text \<open>The end of the window at an offset: the estimate, capped, then halved while it does not fit.\<close>

definition chunk_end :: "size_fn \<Rightarrow> nat \<Rightarrow> series_data \<Rightarrow> nat \<Rightarrow> nat" where
  "chunk_end sz maxBatchBytes sd offset =
     (let end0 = offset + samples_per_chunk sz maxBatchBytes sd;
          end1 = (if length (sd_samples sd) < end0 then length (sd_samples sd) else end0)
      in halve_window sz maxBatchBytes sd offset end1)"

lemma chunk_end_bounds:
  assumes "offset < length (sd_samples sd)"
  shows "offset < chunk_end sz maxB sd offset \<and> chunk_end sz maxB sd offset \<le> length (sd_samples sd)"
proof -
  let ?e = "if length (sd_samples sd) < offset + samples_per_chunk sz maxB sd
    then length (sd_samples sd) else offset + samples_per_chunk sz maxB sd"
  have "offset < ?e" "?e \<le> length (sd_samples sd)"
    using assms samples_per_chunk_pos [of sz maxB sd] by auto
  with halve_window_bounds [of offset ?e sz maxB sd] show ?thesis
    by (simp add: chunk_end_def Let_def)
qed

text \<open>The outer loop over the offsets.\<close>

function chunk_loop :: "size_fn \<Rightarrow> nat \<Rightarrow> series_data \<Rightarrow> nat \<Rightarrow> timeseries list" where
  "chunk_loop sz maxBatchBytes sd offset =
     (if offset < length (sd_samples sd) then
        (let end = chunk_end sz maxBatchBytes sd offset
         in window sd offset end # chunk_loop sz maxBatchBytes sd end)
      else [])"
  by pat_completeness auto
termination
  by (relation "measure (\<lambda>(_, _, sd, offset). length (sd_samples sd) - offset)")
    (use chunk_end_bounds in \<open>auto simp: diff_less_mono2\<close>)

declare chunk_loop.simps [simp del]

section \<open>The batcher\<close>

record batcher =
  b_batch :: batch
  b_bytes :: nat

definition empty_batcher :: batcher where
  "empty_batcher = \<lparr>b_batch = [], b_bytes = 0\<rparr>"

text \<open>\<^verbatim>\<open>sendBatch\<close> returns at once on an empty batch.\<close>

definition send_batch :: "batch \<Rightarrow> batch list" where
  "send_batch b = (if length b = 0 then [] else [b])"

text \<open>
  One iteration of \<^verbatim>\<open>for sd := range seriesCh\<close>: the batcher after it and the batches it sends,
  in order.
\<close>

definition batch_step :: "size_fn \<Rightarrow> nat \<Rightarrow> batcher \<Rightarrow> series_data \<Rightarrow> batcher \<times> batch list" where
  "batch_step sz maxBatchBytes st sd =
     (if length (sd_samples sd) = 0 then (st, [])
      else
        (let ts = \<lparr>ts_labels = sd_labels sd, ts_samples = sd_samples sd\<rparr>;
             seriesBytes = sz ts in
         if seriesBytes \<le> maxBatchBytes then
           (if maxBatchBytes < b_bytes st + seriesBytes \<and> 0 < length (b_batch st)
            then (\<lparr>b_batch = [] @ [ts], b_bytes = 0 + seriesBytes\<rparr>, send_batch (b_batch st))
            else (\<lparr>b_batch = b_batch st @ [ts], b_bytes = b_bytes st + seriesBytes\<rparr>, []))
         else
           (if 0 < length (b_batch st)
            then (empty_batcher, send_batch (b_batch st)
                    @ map (\<lambda>c. [c]) (chunk_loop sz maxBatchBytes sd 0))
            else (st, map (\<lambda>c. [c]) (chunk_loop sz maxBatchBytes sd 0)))))"

fun batch_run :: "size_fn \<Rightarrow> nat \<Rightarrow> batcher \<Rightarrow> series_data list \<Rightarrow> batch list" where
  "batch_run sz maxBatchBytes st [] = send_batch (b_batch st)"
| "batch_run sz maxBatchBytes st (sd # sds) =
     (let (st', out) = batch_step sz maxBatchBytes st sd in out @ batch_run sz maxBatchBytes st' sds)"

definition batches_of :: "size_fn \<Rightarrow> nat \<Rightarrow> series_data list \<Rightarrow> batch list" where
  "batches_of sz maxBatchBytes sds = batch_run sz maxBatchBytes empty_batcher sds"

section \<open>The content of series and batches\<close>

text \<open>The stream of labelled samples that a list of series, or of batches, carries.\<close>

type_synonym labelled = "label list \<times> sample"

definition series_stream :: "series_data \<Rightarrow> labelled list" where
  "series_stream sd = map (Pair (sd_labels sd)) (sd_samples sd)"

definition ts_stream :: "timeseries \<Rightarrow> labelled list" where
  "ts_stream t = map (Pair (ts_labels t)) (ts_samples t)"

definition batch_stream :: "batch \<Rightarrow> labelled list" where
  "batch_stream b = concat (map ts_stream b)"

definition batch_samples :: "batch \<Rightarrow> nat" where
  "batch_samples b = sum_list (map (\<lambda>t. length (ts_samples t)) b)"

definition batch_bytes :: "size_fn \<Rightarrow> batch \<Rightarrow> nat" where
  "batch_bytes sz b = sum_list (map sz b)"

lemma stream_simps [simp]:
  "batch_stream [] = []" "batch_stream (t # b) = ts_stream t @ batch_stream b"
  "batch_stream (b @ c) = batch_stream b @ batch_stream c"
  by (simp_all add: batch_stream_def)

lemma batch_samples_simps [simp]:
  "batch_samples [] = 0" "batch_samples (t # b) = length (ts_samples t) + batch_samples b"
  by (simp_all add: batch_samples_def)

lemma length_batch_stream: "length (batch_stream b) = batch_samples b"
  by (induction b) (auto simp: ts_stream_def)

lemma batch_bytes_simps [simp]:
  "batch_bytes sz [] = 0" "batch_bytes sz (t # b) = sz t + batch_bytes sz b"
  "batch_bytes sz (b @ c) = batch_bytes sz b + batch_bytes sz c"
  by (simp_all add: batch_bytes_def)

lemma send_batch_stream [simp]: "concat (map batch_stream (send_batch b)) = batch_stream b"
  by (simp add: send_batch_def)

lemma send_batch_nonempty: "c \<in> set (send_batch b) \<Longrightarrow> c = b \<and> c \<noteq> []"
  by (auto simp: send_batch_def split: if_splits)

lemma ts_stream_window [simp]:
  "ts_stream (window sd offset end) = map (Pair (sd_labels sd)) (take (end - offset) (drop offset (sd_samples sd)))"
  by (simp add: ts_stream_def window_def)

section \<open>Chunks\<close>

lemma chunk_loop_stream:
  "concat (map ts_stream (chunk_loop sz maxB sd offset)) =
     map (Pair (sd_labels sd)) (drop offset (sd_samples sd))"
proof (induction sz maxB sd offset rule: chunk_loop.induct)
  case (1 sz maxB sd offset)
  show ?case
  proof (cases "offset < length (sd_samples sd)")
    case True
    let ?e = "chunk_end sz maxB sd offset"
    have split: "drop offset (sd_samples sd) =
        take (?e - offset) (drop offset (sd_samples sd)) @ drop ?e (sd_samples sd)"
      using chunk_end_bounds [OF True, of sz maxB] by (simp add: take_drop_split)
    show ?thesis
      by (subst split) (use True 1 in \<open>simp add: chunk_loop.simps [of sz maxB sd offset] Let_def\<close>)
  qed (simp add: chunk_loop.simps [of sz maxB sd offset])
qed

lemma halve_window_fits:
  "offset < end \<Longrightarrow> sz (window sd offset (halve_window sz maxB sd offset end)) \<le> maxB
     \<or> halve_window sz maxB sd offset end - offset = 1"
proof (induction sz maxB sd offset "end" rule: halve_window.induct)
  case (1 sz maxB sd offset "end")
  show ?case
  proof (cases "maxB < sz (window sd offset end) \<and> 1 < end - offset")
    case True
    then have "offset < offset + (end - offset) div 2" by auto
    with True "1.IH" show ?thesis by (simp add: halve_window.simps [of sz maxB sd offset "end"])
  next
    case False
    with "1.prems" show ?thesis by (auto simp: halve_window.simps [of sz maxB sd offset "end"])
  qed
qed

lemma chunk_end_fits:
  assumes "offset < length (sd_samples sd)"
  shows "sz (window sd offset (chunk_end sz maxB sd offset)) \<le> maxB \<or> chunk_end sz maxB sd offset - offset = 1"
  unfolding chunk_end_def Let_def
  using assms samples_per_chunk_pos [of sz maxB sd] by (intro halve_window_fits) auto

lemma chunk_loop_chunks:
  "c \<in> set (chunk_loop sz maxB sd offset) \<Longrightarrow>
     ts_labels c = sd_labels sd \<and> ts_samples c \<noteq> [] \<and> (sz c \<le> maxB \<or> length (ts_samples c) = 1)"
proof (induction sz maxB sd offset rule: chunk_loop.induct)
  case (1 sz maxB sd offset)
  let ?e = "chunk_end sz maxB sd offset"
  have len: "offset < length (sd_samples sd)"
    using "1.prems" by (auto simp: chunk_loop.simps [of sz maxB sd offset] split: if_splits)
  with "1.prems" consider "c = window sd offset ?e" | "c \<in> set (chunk_loop sz maxB sd ?e)"
    by (auto simp: chunk_loop.simps [of sz maxB sd offset] Let_def)
  then show ?case
  proof cases
    case 1
    then show ?thesis
      using chunk_end_bounds [OF len, of sz maxB] chunk_end_fits [OF len, of sz maxB]
      by (auto simp: window_def)
  next
    case 2
    with "1.IH" len show ?thesis by simp
  qed
qed

section \<open>The contract of a batcher\<close>

text \<open>
  What the pipeline relies on: each series is turned into batches without losing, adding or
  reordering a sample, counting what is held back; no empty batch is emitted; flushing
  releases what is held.
\<close>

fun drive :: "('st \<Rightarrow> series_data \<Rightarrow> 'st \<times> batch list) \<Rightarrow> ('st \<Rightarrow> batch list) \<Rightarrow> 'st \<Rightarrow> series_data list \<Rightarrow> batch list" where
  "drive step flush st [] = flush st"
| "drive step flush st (sd # sds) = (let (st', out) = step st sd in out @ drive step flush st' sds)"

locale batching =
  fixes step :: "'st \<Rightarrow> series_data \<Rightarrow> 'st \<times> batch list"
    and flush :: "'st \<Rightarrow> batch list"
    and held :: "'st \<Rightarrow> labelled list"
    and inv :: "'st \<Rightarrow> bool"
    and ok :: "batch \<Rightarrow> bool"
  assumes step_stream: "inv st \<Longrightarrow> step st sd = (st', out) \<Longrightarrow>
      concat (map batch_stream out) @ held st' = held st @ series_stream sd"
    and step_inv: "inv st \<Longrightarrow> step st sd = (st', out) \<Longrightarrow> inv st'"
    and step_ok: "inv st \<Longrightarrow> step st sd = (st', out) \<Longrightarrow> b \<in> set out \<Longrightarrow> ok b"
    and flush_stream: "inv st \<Longrightarrow> concat (map batch_stream (flush st)) = held st"
    and flush_ok: "inv st \<Longrightarrow> b \<in> set (flush st) \<Longrightarrow> ok b"
begin

lemma drive_stream:
  "inv st \<Longrightarrow> concat (map batch_stream (drive step flush st sds)) = held st @ concat (map series_stream sds)"
proof (induction sds arbitrary: st)
  case (Cons sd sds)
  obtain st' out where s: "step st sd = (st', out)" by fastforce
  with Cons step_inv have "concat (map batch_stream (drive step flush st' sds))
      = held st' @ concat (map series_stream sds)" by blast
  with s step_stream [OF Cons.prems s] show ?case by (simp flip: append_assoc)
qed (simp add: flush_stream)

lemma drive_ok: "inv st \<Longrightarrow> b \<in> set (drive step flush st sds) \<Longrightarrow> ok b"
proof (induction sds arbitrary: st)
  case (Cons sd sds)
  obtain st' out where s: "step st sd = (st', out)" by fastforce
  with Cons.prems consider "b \<in> set out" | "b \<in> set (drive step flush st' sds)" by auto
  then show ?case using Cons.IH Cons.prems(1) s step_inv step_ok by cases blast+
qed (simp add: flush_ok)

end

section \<open>The byte-budget batcher keeps it\<close>

definition batcher_inv :: "size_fn \<Rightarrow> nat \<Rightarrow> batcher \<Rightarrow> bool" where
  "batcher_inv sz maxB st \<longleftrightarrow> b_bytes st = batch_bytes sz (b_batch st) \<and> b_bytes st \<le> maxB
     \<and> (\<forall>t \<in> set (b_batch st). ts_samples t \<noteq> [])"

text \<open>A batch within the budget, or one that is a single sample.\<close>

definition batch_ok :: "size_fn \<Rightarrow> nat \<Rightarrow> batch \<Rightarrow> bool" where
  "batch_ok sz maxB b \<longleftrightarrow> b \<noteq> [] \<and> (\<forall>t \<in> set b. ts_samples t \<noteq> [])
     \<and> (batch_bytes sz b \<le> maxB \<or> length b = 1 \<and> batch_samples b = 1)"

lemma batcher_inv_empty [simp]: "batcher_inv sz maxB empty_batcher"
  by (simp add: batcher_inv_def empty_batcher_def)

lemma batch_ok_send: "batcher_inv sz maxB st \<Longrightarrow> b \<in> set (send_batch (b_batch st)) \<Longrightarrow> batch_ok sz maxB b"
  by (auto simp: batcher_inv_def batch_ok_def dest!: send_batch_nonempty)

lemma batch_ok_chunk: "c \<in> set (chunk_loop sz maxB sd 0) \<Longrightarrow> batch_ok sz maxB [c]"
  by (auto simp: batch_ok_def dest: chunk_loop_chunks)

lemma singleton_streams: "concat (map batch_stream (map (\<lambda>c. [c]) cs)) = concat (map ts_stream cs)"
  by (induction cs) auto

interpretation byte_budget: batching "batch_step sz maxB" "\<lambda>st. send_batch (b_batch st)"
  "\<lambda>st. batch_stream (b_batch st)" "batcher_inv sz maxB" "batch_ok sz maxB" for sz maxB
proof
  fix st sd st' out
  assume s: "batch_step sz maxB st sd = (st', out)"
  then show "concat (map batch_stream out) @ batch_stream (b_batch st') = batch_stream (b_batch st) @ series_stream sd"
    using chunk_loop_stream [of sz maxB sd 0]
    by (auto simp: batch_step_def Let_def singleton_streams series_stream_def ts_stream_def
        empty_batcher_def simp del: map_map split: if_splits)
  assume inv: "batcher_inv sz maxB st"
  from s inv show "batcher_inv sz maxB st'"
    by (auto simp: batch_step_def Let_def batcher_inv_def empty_batcher_def split: if_splits)
  fix b assume "b \<in> set out"
  with s inv show "batch_ok sz maxB b"
    by (auto simp: batch_step_def Let_def split: if_splits intro: batch_ok_send batch_ok_chunk)
next
  fix st b
  assume "batcher_inv sz maxB st" "b \<in> set (send_batch (b_batch st))"
  then show "batch_ok sz maxB b" by (rule batch_ok_send)
qed simp

lemma batch_run_drive: "batch_run sz maxB st sds = drive (batch_step sz maxB) (\<lambda>st. send_batch (b_batch st)) st sds"
  by (induction sds arbitrary: st) auto

lemma batches_of_stream:
  "concat (map batch_stream (batches_of sz maxB sds)) = concat (map series_stream sds)"
  using byte_budget.drive_stream [OF batcher_inv_empty, of sz maxB sds]
  by (simp add: batches_of_def batch_run_drive empty_batcher_def)

section \<open>Filling\<close>

definition ts_of :: "series_data \<Rightarrow> timeseries" where
  "ts_of sd = \<lparr>ts_labels = sd_labels sd, ts_samples = sd_samples sd\<rparr>"

lemma batch_step_fits:
  "sd_samples sd \<noteq> [] \<Longrightarrow> sz (ts_of sd) \<le> maxB \<Longrightarrow> batch_step sz maxB st sd =
     (if maxB < b_bytes st + sz (ts_of sd) \<and> b_batch st \<noteq> []
      then (\<lparr>b_batch = [ts_of sd], b_bytes = sz (ts_of sd)\<rparr>, [b_batch st])
      else (\<lparr>b_batch = b_batch st @ [ts_of sd], b_bytes = b_bytes st + sz (ts_of sd)\<rparr>, []))"
  by (simp add: batch_step_def ts_of_def Let_def send_batch_def)

lemma batch_step_no_samples: "sd_samples sd = [] \<Longrightarrow> batch_step sz maxB st sd = (st, [])"
  by (simp add: batch_step_def)

lemma batch_run_greedy:
  assumes "\<forall>sd \<in> set sds. sz (ts_of sd) \<le> maxB" "batcher_inv sz maxB st"
  shows "successively (\<lambda>b c. maxB < batch_bytes sz b + sz (hd c)) (batch_run sz maxB st sds)
    \<and> (b_batch st \<noteq> [] \<longrightarrow> (\<exists>r bs. batch_run sz maxB st sds = (b_batch st @ r) # bs))"
  using assms
proof (induction sds arbitrary: st)
  case Nil
  then show ?case by (simp add: send_batch_def)
next
  case (Cons sd sds)
  show ?case
  proof (cases "sd_samples sd = []")
    case True
    with Cons show ?thesis by (simp add: batch_step_no_samples)
  next
    case False
    obtain st' out where s: "batch_step sz maxB st sd = (st', out)" by fastforce
    have "batcher_inv sz maxB st'" using byte_budget.step_inv [OF Cons.prems(2) s] .
    with Cons have IH: "successively (\<lambda>b c. maxB < batch_bytes sz b + sz (hd c)) (batch_run sz maxB st' sds)"
      "b_batch st' \<noteq> [] \<Longrightarrow> \<exists>r bs. batch_run sz maxB st' sds = (b_batch st' @ r) # bs" by auto
    have f: "batch_step sz maxB st sd = (if maxB < b_bytes st + sz (ts_of sd) \<and> b_batch st \<noteq> []
      then (\<lparr>b_batch = [ts_of sd], b_bytes = sz (ts_of sd)\<rparr>, [b_batch st])
      else (\<lparr>b_batch = b_batch st @ [ts_of sd], b_bytes = b_bytes st + sz (ts_of sd)\<rparr>, []))"
      using False Cons.prems(1) by (intro batch_step_fits) auto
    have bytes: "b_bytes st = batch_bytes sz (b_batch st)" using Cons.prems(2) by (simp add: batcher_inv_def)
    show ?thesis
    proof (cases "maxB < b_bytes st + sz (ts_of sd) \<and> b_batch st \<noteq> []")
      case True
      with s f have st': "st' = \<lparr>b_batch = [ts_of sd], b_bytes = sz (ts_of sd)\<rparr>" "out = [b_batch st]" by auto
      with IH(2) obtain r bs where "batch_run sz maxB st' sds = (ts_of sd # r) # bs" by auto
      with IH(1) st' s True bytes show ?thesis by (auto simp: successively_Cons)
    next
      case False
      with s f have "st' = \<lparr>b_batch = b_batch st @ [ts_of sd], b_bytes = b_bytes st + sz (ts_of sd)\<rparr>" "out = []"
        by auto
      with IH s show ?thesis by auto
    qed
  qed
qed

section \<open>Properties of the batcher\<close>

text \<open>
  C4. The batcher is lossless: the labelled samples of the batches, read in order, are exactly
  the labelled samples of the series, read in order. Splitting and batching neither lose,
  duplicate, relabel nor reorder a sample, for every size function and every budget.
\<close>

theorem batches_preserve_stream:
  "concat (map batch_stream (batches_of sz maxB sds)) = concat (map series_stream sds)"
  by (rule batches_of_stream)

text \<open>
  C5. The byte budget: every batch is non-empty, has no series without samples, and its series
  sizes add up to at most \<^verbatim>\<open>MaxBatchBytes\<close>, the only exception being a batch that is a single
  sample of a single series.
\<close>

theorem batches_within_budget:
  "\<forall>b \<in> set (batches_of sz maxB sds). b \<noteq> [] \<and> (\<forall>t \<in> set b. ts_samples t \<noteq> [])
     \<and> (batch_bytes sz b \<le> maxB \<or> length b = 1 \<and> batch_samples b = 1)"
  using byte_budget.drive_ok [OF batcher_inv_empty]
  by (auto simp: batches_of_def batch_run_drive batch_ok_def)

theorem batches_within_budget_witness:
  "batches_of (\<lambda>t. 3 + 2 * length (ts_samples t)) 8 [ex_series]
     = [[\<lparr>ts_labels = ex_labels, ts_samples = sd_samples ex_series\<rparr>]]
   \<and> batch_bytes (\<lambda>t. 3 + 2 * length (ts_samples t)) [\<lparr>ts_labels = ex_labels, ts_samples = sd_samples ex_series\<rparr>] \<le> 8"
proof -
  have b: "batches_of (\<lambda>t. 3 + 2 * length (ts_samples t)) 8 [ex_series]
     = [[\<lparr>ts_labels = ex_labels, ts_samples = sd_samples ex_series\<rparr>]]"
    by (simp add: batches_of_def batch_step_def empty_batcher_def send_batch_def ex_series_def)
  show ?thesis
    using batches_within_budget [of "\<lambda>t. 3 + 2 * length (ts_samples t)" 8 "[ex_series]"] b
    by (auto simp: ex_series_def)
qed

text \<open>
  Batching is greedy: when every series fits the budget on its own, a batch is closed only
  because the first series of the next batch would have exceeded the budget, so no two
  neighbouring batches could have been one.
\<close>

theorem batches_are_filled_greedily:
  assumes "\<forall>sd \<in> set sds. sz \<lparr>ts_labels = sd_labels sd, ts_samples = sd_samples sd\<rparr> \<le> maxB"
    and "Suc i < length (batches_of sz maxB sds)"
  shows "maxB < batch_bytes sz (batches_of sz maxB sds ! i) + sz (hd (batches_of sz maxB sds ! Suc i))"
proof -
  have "successively (\<lambda>b c. maxB < batch_bytes sz b + sz (hd c)) (batches_of sz maxB sds)"
    using batch_run_greedy [OF _ batcher_inv_empty, of sds sz maxB] assms(1)
    by (simp add: batches_of_def ts_of_def)
  with assms(2) show ?thesis by (simp add: successively_conv_nth)
qed

theorem batches_are_filled_greedily_witness:
  "let sz = (\<lambda>t. 3 + 2 * length (ts_samples t)); bs = batches_of sz 10 [ex_series, ex_series]
   in length bs = 2 \<and> 10 < batch_bytes sz (bs ! 0) + sz (hd (bs ! 1))"
proof -
  let ?sz = "\<lambda>t. 3 + 2 * length (ts_samples t)"
  have l: "length (batches_of ?sz 10 [ex_series, ex_series]) = 2"
    by (simp add: batches_of_def batch_step_def empty_batcher_def send_batch_def ex_series_def)
  show ?thesis
    using batches_are_filled_greedily [of "[ex_series, ex_series]" ?sz 10 0] l
    by (simp add: ex_series_def)
qed

text \<open>
  The size of the \<^verbatim>\<open>WriteRequest\<close> that carries a batch: each series is an embedded message, which
  protobuf frames with a tag byte and a length of at least one byte. \<open>framing n\<close> is the number of
  framing bytes of a message of \<open>n\<close> bytes.
\<close>

definition request_bytes :: "(nat \<Rightarrow> nat) \<Rightarrow> size_fn \<Rightarrow> batch \<Rightarrow> nat" where
  "request_bytes framing sz b = sum_list (map (\<lambda>t. framing (sz t) + sz t) b)"

lemma request_bytes_ge:
  "(\<And>n. 2 \<le> framing n) \<Longrightarrow> 2 * length b + batch_bytes sz b \<le> request_bytes framing sz b"
proof (induction b)
  case (Cons t b)
  then have "2 \<le> framing (sz t)" "2 * length b + batch_bytes sz b \<le> request_bytes framing sz b" by auto
  then show ?case by (simp add: request_bytes_def)
qed (simp add: request_bytes_def)

lemma batch_run_fills:
  "\<forall>sd \<in> set sds. sd_samples sd \<noteq> [] \<Longrightarrow> b_bytes st + sum_list (map (sz \<circ> ts_of) sds) \<le> maxB \<Longrightarrow>
     batch_run sz maxB st sds = send_batch (b_batch st @ map ts_of sds)"
proof (induction sds arbitrary: st)
  case (Cons sd sds)
  then have "batch_step sz maxB st sd =
      (\<lparr>b_batch = b_batch st @ [ts_of sd], b_bytes = b_bytes st + sz (ts_of sd)\<rparr>, [])"
    by (subst batch_step_fits) auto
  with Cons show ?case by simp
qed simp

text \<open>
  \<^verbatim>\<open>MaxBatchBytes\<close> bounds the sum of the series' sizes and not the encoded request: series
  that exactly fill the budget are sent in one request, whose encoded size exceeds
  \<^verbatim>\<open>MaxBatchBytes\<close> by at least two bytes per series.
\<close>

theorem full_batch_request_exceeds_budget:
  assumes "\<And>n. 2 \<le> framing n" and "sds \<noteq> []" and "\<forall>sd \<in> set sds. sd_samples sd \<noteq> []"
    and "sum_list (map (\<lambda>sd. sz \<lparr>ts_labels = sd_labels sd, ts_samples = sd_samples sd\<rparr>) sds) = maxB"
  shows "\<exists>b. batches_of sz maxB sds = [b] \<and> maxB + 2 * length sds \<le> request_bytes framing sz b"
proof -
  have s: "sum_list (map (sz \<circ> ts_of) sds) = maxB" using assms(4) by (simp add: ts_of_def comp_def)
  have "batches_of sz maxB sds = [map ts_of sds]"
    using batch_run_fills [of sds empty_batcher sz maxB] assms(2,3) s
    by (simp add: batches_of_def empty_batcher_def send_batch_def)
  moreover have "batch_bytes sz (map ts_of sds) = maxB" using s by (simp add: batch_bytes_def)
  ultimately show ?thesis using request_bytes_ge [of framing "map ts_of sds" sz, OF assms(1)] by simp
qed

theorem full_batch_request_exceeds_budget_witness:
  "\<exists>b. batches_of (\<lambda>t. 5 * length (ts_samples t)) 20 [ex_series, ex_series] = [b]
     \<and> 24 \<le> request_bytes (\<lambda>n. 2) (\<lambda>t. 5 * length (ts_samples t)) b"
  using full_batch_request_exceeds_budget [of "\<lambda>n. 2" "[ex_series, ex_series]" "\<lambda>t. 5 * length (ts_samples t)" 20]
  by (simp add: ex_series_def)

end
