(* ===== verification/Machine.thy ===== *)
theory Machine
  imports Prelude
begin

text \<open>
  Labelled transition systems: reachable states, runs, invariants, and total correctness (a
  measure that every step decreases, and a step from every state that is not final). The
  concurrent pipeline, the pipeline on a network and the service process are instances.
\<close>

inductive reach :: "'s \<Rightarrow> ('s \<Rightarrow> 'a \<Rightarrow> 's \<Rightarrow> bool) \<Rightarrow> 's \<Rightarrow> bool" for s0 step where
  reach_start: "reach s0 step s0"
| reach_step: "reach s0 step s \<Longrightarrow> step s a t \<Longrightarrow> reach s0 step t"

fun path :: "('s \<Rightarrow> 'a \<Rightarrow> 's \<Rightarrow> bool) \<Rightarrow> 's \<Rightarrow> 'a list \<Rightarrow> 's \<Rightarrow> bool" where
  "path step s [] t \<longleftrightarrow> s = t"
| "path step s (a # as) t \<longleftrightarrow> (\<exists>u. step s a u \<and> path step u as t)"

lemma path_reach: "reach s0 step s \<Longrightarrow> path step s as t \<Longrightarrow> reach s0 step t"
  by (induction as arbitrary: s) (auto intro: reach_step)

locale invariant_machine =
  fixes s0 :: 's and step :: "'s \<Rightarrow> 'a \<Rightarrow> 's \<Rightarrow> bool" and I :: "'s \<Rightarrow> bool"
  assumes inv_start: "I s0"
    and inv_step: "I s \<Longrightarrow> step s a t \<Longrightarrow> I t"
begin

lemma reach_inv: "reach s0 step s \<Longrightarrow> I s"
  by (induction rule: reach.induct) (auto intro: inv_start inv_step)

end

locale terminating_machine = invariant_machine s0 step I
  for s0 :: 's and step :: "'s \<Rightarrow> 'a \<Rightarrow> 's \<Rightarrow> bool" and I +
  fixes final :: "'s \<Rightarrow> bool" and variant :: "'s \<Rightarrow> nat"
  assumes decreases: "I s \<Longrightarrow> step s a t \<Longrightarrow> variant t < variant s"
    and progress: "I s \<Longrightarrow> \<not> final s \<Longrightarrow> \<exists>a t. step s a t"
begin

lemma path_bound: "I s \<Longrightarrow> path step s as t \<Longrightarrow> length as + variant t \<le> variant s"
proof (induction as arbitrary: s)
  case (Cons a as)
  then obtain u where u: "step s a u" "path step u as t" by auto
  with Cons.prems(1) inv_step have "I u" by blast
  with Cons.IH u(2) have "length as + variant t \<le> variant u" by blast
  with decreases [OF Cons.prems(1) u(1)] show ?case by simp
qed simp

text \<open>From every reachable state a final state can be reached, and no run is longer than the variant.\<close>

lemma can_finish: "I s \<Longrightarrow> \<exists>as t. path step s as t \<and> final t"
proof (induction "variant s" arbitrary: s rule: less_induct)
  case less
  show ?case
  proof (cases "final s")
    case True
    then have "path step s [] s \<and> final s" by simp
    then show ?thesis by blast
  next
    case False
    with progress less.prems obtain a u where u: "step s a u" by blast
    with less.prems have "variant u < variant s" "I u" by (auto intro: decreases inv_step)
    with less.hyps obtain as t where "path step u as t" "final t" by blast
    with u have "path step s (a # as) t \<and> final t" by auto
    then show ?thesis by blast
  qed
qed

lemma no_infinite_run: "\<not> (\<exists>f g. f 0 = s0 \<and> (\<forall>i. step (f i) (g i) (f (Suc i))))"
proof
  assume "\<exists>f g. f 0 = s0 \<and> (\<forall>i. step (f i) (g i) (f (Suc i)))"
  then obtain f g where f: "f 0 = s0" "\<And>i. step (f i) (g i) (f (Suc i))" by blast
  have I: "I (f i)" for i by (induction i) (auto simp: f(1) intro: inv_start inv_step f(2))
  have "variant (f i) + i \<le> variant s0" for i
  proof (induction i)
    case (Suc i)
    with decreases [OF I f(2), of i] show ?case by simp
  qed (simp add: f(1))
  from this [of "Suc (variant s0)"] show False by simp
qed

end

text \<open>A machine that does what another may do, under an abstraction, reaches only what that one reaches.\<close>

locale simulation =
  fixes c0 :: 'c and cstep :: "'c \<Rightarrow> 'a \<Rightarrow> 'c \<Rightarrow> bool" and s0 :: 's and step :: "'s \<Rightarrow> 'a \<Rightarrow> 's \<Rightarrow> bool" and abs :: "'c \<Rightarrow> 's"
  assumes abs_start: "abs c0 = s0"
    and abs_step: "cstep c a d \<Longrightarrow> step (abs c) a (abs d)"
begin

lemma reach_abs: "reach c0 cstep c \<Longrightarrow> reach s0 step (abs c)"
  by (induction rule: reach.induct) (auto simp: abs_start intro: reach_start reach_step abs_step)

lemma path_abs: "path cstep c as d \<Longrightarrow> path step (abs c) as (abs d)"
  by (induction as arbitrary: c) (auto intro: abs_step)

end

end
