(* ===== verification/Pipeline.thy ===== *)
theory Pipeline
  imports Batcher Machine
begin

text \<open>
  \<^verbatim>\<open>migration.Run\<close> (\<^verbatim>\<open>internal/migration/pipeline.go\<close>): the reader, batcher and writer goroutines,
  the two channels between them, the errgroup and the shared statistics, as a labelled
  transition system. A label is one atomic action of one goroutine (a channel operation, the
  return of one \<^verbatim>\<open>Send\<close>, an update of the statistics under the mutex, a return) or the cancellation
  of the caller's context, so every interleaving the Go scheduler can produce is a sequence of labels.

  The reader goroutine is what \<open>Tsdb\<close> shows of \<^verbatim>\<open>Reader.Read\<close>: it sends the selected series in
  order and ends with nil or an error; a done context can stop it between two series, and, since the
  series set was selected under that context, can end the iteration at any point with an error of its own.
\<close>

section \<open>Configuration\<close>

record 'p pipeline_config =
  pc_provider :: "'p option"
  pc_tenant_id :: string
  pc_cortex_url :: string
  pc_max_batch_bytes :: int
  pc_writer_concurrency :: int
  pc_dry_run :: bool
  pc_min_time :: int
  pc_max_time :: int

record pipeline_stats =
  series_read :: nat
  samples_read :: nat
  batches_sent :: nat
  samples_sent :: nat

definition eff_max_batch_bytes :: "int \<Rightarrow> nat" where
  "eff_max_batch_bytes n = nat (if n \<le> 0 then 3 * 1024 * 1024 else n)"

definition eff_writer_concurrency :: "int \<Rightarrow> nat" where
  "eff_writer_concurrency n = nat (if n \<le> 0 then 4 else n)"

lemma eff_max_batch_bytes_pos: "0 < eff_max_batch_bytes n"
  by (simp add: eff_max_batch_bytes_def)

lemma eff_writer_concurrency_pos: "0 < eff_writer_concurrency n"
  by (simp add: eff_writer_concurrency_def)

section \<open>The errgroup\<close>

text \<open>
  The package \<^verbatim>\<open>errgroup\<close> is a parameter: what \<^verbatim>\<open>Wait\<close> returns and whether the group's context is
  cancelled, from the non-nil errors its functions have returned so far, the oldest first. The locale
  is its documentation: the first call to return a non-nil error cancels the context, and its error is
  returned by \<^verbatim>\<open>Wait\<close>.
\<close>

record errgroup_ops =
  eg_wait :: "goerr list \<Rightarrow> goerr option"
  eg_cancelled :: "goerr list \<Rightarrow> bool"

locale errgroup =
  fixes G :: errgroup_ops
  assumes wait_nil: "eg_wait G [] = None"
    and wait_first: "eg_wait G (e # es) = Some e"
    and cancelled_iff: "eg_cancelled G es \<longleftrightarrow> es \<noteq> []"
begin

lemma wait_None_iff: "eg_wait G es = None \<longleftrightarrow> es = []"
  by (cases es) (simp_all add: wait_nil wait_first)

lemma wait_Some_iff: "eg_wait G es = Some e \<longleftrightarrow> es \<noteq> [] \<and> e = hd es"
  by (cases es) (auto simp: wait_nil wait_first)

end

definition first_error_group :: errgroup_ops where
  "first_error_group = \<lparr>eg_wait = (\<lambda>es. if es = [] then None else Some (hd es)), eg_cancelled = (\<lambda>es. es \<noteq> [])\<rparr>"

interpretation feg: errgroup first_error_group
  by unfold_locales (simp_all add: first_error_group_def)

section \<open>States\<close>

datatype batcher_phase = Receiving | Flushing | BatcherReturned

text \<open>A writer waits for a batch, sends it (or skips that in a dry run), then counts it.\<close>

datatype writer = Idle | Sending batch | Counting batch | WriterReturned

record params =
  p_group :: errgroup_ops
  p_sz :: size_fn
  p_max_batch_bytes :: int
  p_writer_concurrency :: int
  p_dry_run :: bool
  p_series :: "series_data list"
  p_read_err :: "goerr option"

text \<open>
  \<open>g_errs\<close> are the non-nil errors that goroutines have returned, the oldest first. The last four
  fields record what happened: the calls of the progress function, the batches whose \<^verbatim>\<open>Send\<close> returned
  nil, the errors \<^verbatim>\<open>Send\<close> returned, and the batches counted as sent.
\<close>

record pstate =
  rd_running :: bool
  rd_todo :: "series_data list"
  series_ch :: "series_data list"
  series_closed :: bool
  bt_phase :: batcher_phase
  bt_state :: batcher
  bt_out :: "batch list"
  batch_ch :: "batch list"
  batch_closed :: bool
  writers :: "writer list"
  stats :: pipeline_stats
  g_errs :: "goerr list"
  parent_ctx :: ctx
  progress_log :: "(nat \<times> nat) list"
  delivered :: "batch list"
  send_errs :: "goerr list"
  counted :: "batch list"

definition series_cap :: nat where "series_cap = 64"

definition budget :: "params \<Rightarrow> nat" where
  "budget P = eff_max_batch_bytes (p_max_batch_bytes P)"

definition num_writers :: "params \<Rightarrow> nat" where
  "num_writers P = eff_writer_concurrency (p_writer_concurrency P)"

definition batch_cap :: "params \<Rightarrow> nat" where "batch_cap P = num_writers P * 2"

definition init_state :: "params \<Rightarrow> pstate" where
  "init_state P =
     \<lparr>rd_running = True, rd_todo = p_series P, series_ch = [], series_closed = False,
      bt_phase = Receiving, bt_state = empty_batcher, bt_out = [], batch_ch = [], batch_closed = False,
      writers = replicate (num_writers P) Idle,
      stats = \<lparr>series_read = 0, samples_read = 0, batches_sent = 0, samples_sent = 0\<rparr>,
      g_errs = [], parent_ctx = Live, progress_log = [], delivered = [], send_errs = [], counted = []\<rparr>"

text \<open>The return of a goroutine, and the group's context.\<close>

definition return_err :: "goerr option \<Rightarrow> pstate \<Rightarrow> pstate" where
  "return_err e s = s\<lparr>g_errs := g_errs s @ (case e of None \<Rightarrow> [] | Some x \<Rightarrow> [x])\<rparr>"

definition context_canceled :: goerr where
  "context_canceled = errors_new ''context canceled''"

definition gctx_err :: "params \<Rightarrow> pstate \<Rightarrow> goerr option" where
  "gctx_err P s = (case parent_ctx s of Done e \<Rightarrow> Some e
     | Live \<Rightarrow> if eg_cancelled (p_group P) (g_errs s) then Some context_canceled else None)"

section \<open>Actions\<close>

datatype action =
    ReaderSend | ReaderReturn | ReaderCancel | ReaderAbort goerr
  | BatcherRecv | BatcherSend | BatcherCancel | BatcherEof | BatcherReturn
  | WriterRecv nat | WriterSkip nat | WriterSent nat | WriterFail nat goerr | WriterCount nat | WriterEof nat
  | ParentCancel goerr

definition is_sending :: "writer \<Rightarrow> bool" where
  "is_sending w = (case w of Sending _ \<Rightarrow> True | _ \<Rightarrow> False)"

definition is_counting :: "writer \<Rightarrow> bool" where
  "is_counting w = (case w of Counting _ \<Rightarrow> True | _ \<Rightarrow> False)"

text \<open>The batch a writer has in hand.\<close>

definition in_hand :: "writer \<Rightarrow> batch" where
  "in_hand w = (case w of Sending b \<Rightarrow> b | Counting b \<Rightarrow> b | _ \<Rightarrow> [])"

text \<open>
  When an action can be taken. The reader looks at the context after \<^verbatim>\<open>ss.Next()\<close> has returned true: while there is
  a series to send, or one whose samples cannot be read. An errgroup's function, once started, acts
  whatever the others do; nothing is enabled in a goroutine that has returned.
\<close>

fun enabled :: "params \<Rightarrow> action \<Rightarrow> pstate \<Rightarrow> bool" where
  "enabled P ReaderSend s \<longleftrightarrow> rd_running s \<and> rd_todo s \<noteq> [] \<and> length (series_ch s) < series_cap"
| "enabled P ReaderReturn s \<longleftrightarrow> rd_running s \<and> rd_todo s = []"
| "enabled P ReaderCancel s \<longleftrightarrow> rd_running s \<and> (rd_todo s \<noteq> [] \<or> p_read_err P \<noteq> None) \<and> gctx_err P s \<noteq> None"
| "enabled P (ReaderAbort e) s \<longleftrightarrow> rd_running s \<and> gctx_err P s \<noteq> None"
| "enabled P BatcherRecv s \<longleftrightarrow> bt_phase s = Receiving \<and> bt_out s = [] \<and> series_ch s \<noteq> []"
| "enabled P BatcherSend s \<longleftrightarrow>
     bt_phase s \<noteq> BatcherReturned \<and> bt_out s \<noteq> [] \<and> length (batch_ch s) < batch_cap P"
| "enabled P BatcherCancel s \<longleftrightarrow> bt_phase s \<noteq> BatcherReturned \<and> bt_out s \<noteq> [] \<and> gctx_err P s \<noteq> None"
| "enabled P BatcherEof s \<longleftrightarrow>
     bt_phase s = Receiving \<and> bt_out s = [] \<and> series_ch s = [] \<and> series_closed s"
| "enabled P BatcherReturn s \<longleftrightarrow> bt_phase s = Flushing \<and> bt_out s = []"
| "enabled P (WriterRecv i) s \<longleftrightarrow> i < length (writers s) \<and> writers s ! i = Idle \<and> batch_ch s \<noteq> []"
| "enabled P (WriterSkip i) s \<longleftrightarrow> i < length (writers s) \<and> is_sending (writers s ! i) \<and> p_dry_run P"
| "enabled P (WriterSent i) s \<longleftrightarrow> i < length (writers s) \<and> is_sending (writers s ! i) \<and> \<not> p_dry_run P"
| "enabled P (WriterFail i e) s \<longleftrightarrow> i < length (writers s) \<and> is_sending (writers s ! i) \<and> \<not> p_dry_run P"
| "enabled P (WriterCount i) s \<longleftrightarrow> i < length (writers s) \<and> is_counting (writers s ! i)"
| "enabled P (WriterEof i) s \<longleftrightarrow>
     i < length (writers s) \<and> writers s ! i = Idle \<and> batch_ch s = [] \<and> batch_closed s"
| "enabled P (ParentCancel e) s \<longleftrightarrow> parent_ctx s = Live"

fun perform :: "params \<Rightarrow> action \<Rightarrow> pstate \<Rightarrow> pstate" where
  "perform P ReaderSend s =
     s\<lparr>series_ch := series_ch s @ [hd (rd_todo s)], rd_todo := tl (rd_todo s)\<rparr>"
| "perform P ReaderReturn s =
     return_err (p_read_err P) (s\<lparr>rd_running := False, series_closed := True\<rparr>)"
| "perform P ReaderCancel s =
     return_err (gctx_err P s) (s\<lparr>rd_running := False, series_closed := True\<rparr>)"
| "perform P (ReaderAbort e) s =
     return_err (Some (wrapf ''iterating series set: '' e)) (s\<lparr>rd_running := False, series_closed := True\<rparr>)"
| "perform P BatcherRecv s =
     (let sd = hd (series_ch s);
          st' = (stats s)\<lparr>series_read := series_read (stats s) + 1,
                          samples_read := samples_read (stats s) + length (sd_samples sd)\<rparr>;
          (b, out) = batch_step (p_sz P) (budget P) (bt_state s) sd
      in s\<lparr>series_ch := tl (series_ch s), stats := st',
           progress_log := progress_log s @ [(series_read st', samples_read st')],
           bt_state := b, bt_out := out\<rparr>)"
| "perform P BatcherSend s =
     s\<lparr>batch_ch := batch_ch s @ [hd (bt_out s)], bt_out := tl (bt_out s)\<rparr>"
| "perform P BatcherCancel s =
     return_err (gctx_err P s) (s\<lparr>bt_phase := BatcherReturned, batch_closed := True\<rparr>)"
| "perform P BatcherEof s =
     s\<lparr>bt_phase := Flushing, bt_out := send_batch (b_batch (bt_state s))\<rparr>"
| "perform P BatcherReturn s = s\<lparr>bt_phase := BatcherReturned, batch_closed := True\<rparr>"
| "perform P (WriterRecv i) s =
     s\<lparr>writers := (writers s)[i := Sending (hd (batch_ch s))], batch_ch := tl (batch_ch s)\<rparr>"
| "perform P (WriterSkip i) s = s\<lparr>writers := (writers s)[i := Counting (in_hand (writers s ! i))]\<rparr>"
| "perform P (WriterSent i) s =
     s\<lparr>writers := (writers s)[i := Counting (in_hand (writers s ! i))], delivered := delivered s @ [in_hand (writers s ! i)]\<rparr>"
| "perform P (WriterFail i e) s =
     return_err (Some (wrapf ''remote write: '' e)) (s\<lparr>writers := (writers s)[i := WriterReturned], send_errs := send_errs s @ [e]\<rparr>)"
| "perform P (WriterCount i) s =
     (let b = in_hand (writers s ! i)
      in s\<lparr>writers := (writers s)[i := Idle], counted := counted s @ [b],
           stats := (stats s)\<lparr>batches_sent := batches_sent (stats s) + 1,
                              samples_sent := samples_sent (stats s) + batch_samples b\<rparr>\<rparr>)"
| "perform P (WriterEof i) s = s\<lparr>writers := (writers s)[i := WriterReturned]\<rparr>"
| "perform P (ParentCancel e) s = s\<lparr>parent_ctx := Done e\<rparr>"

inductive pipeline_step :: "params \<Rightarrow> pstate \<Rightarrow> action \<Rightarrow> pstate \<Rightarrow> bool" for P where
  act: "enabled P a s \<Longrightarrow> pipeline_step P s a (perform P a s)"

inductive_simps pipeline_step_iff: "pipeline_step P s a t"

text \<open>\<^verbatim>\<open>g.Wait()\<close> returns when every goroutine has returned.\<close>

definition all_returned :: "pstate \<Rightarrow> bool" where
  "all_returned s \<longleftrightarrow> \<not> rd_running s \<and> bt_phase s = BatcherReturned
     \<and> (\<forall>w \<in> set (writers s). w = WriterReturned)"

text \<open>A schedule is a list of actions; it runs only if each is enabled when its turn comes.\<close>

fun run_schedule :: "params \<Rightarrow> action list \<Rightarrow> pstate \<Rightarrow> pstate option" where
  "run_schedule P [] s = Some s"
| "run_schedule P (a # as) s = (if enabled P a s then run_schedule P as (perform P a s) else None)"

abbreviation reachable :: "params \<Rightarrow> pstate \<Rightarrow> bool" where
  "reachable P s \<equiv> reach (init_state P) (pipeline_step P) s"

end
