(* ===== verification/Pipeline_Invariant.thy ===== *)
theory Pipeline_Invariant
  imports Pipeline
begin

text \<open>
  The invariants of the pipeline's transition system: the shape of its state, where every batch
  is at every moment, and what the counters count. Each is shown for one action at a time.
\<close>

section \<open>Where the batches are\<close>

definition writer_load :: "writer \<Rightarrow> batch multiset" where
  "writer_load w = (case w of Sending b \<Rightarrow> {#b#} | Counting b \<Rightarrow> {#b#} | _ \<Rightarrow> {#})"

definition loads :: "writer list \<Rightarrow> batch multiset" where
  "loads ws = sum_list (map writer_load ws)"

text \<open>The batches whose \<^verbatim>\<open>Send\<close> is over and that are not counted yet.\<close>

definition uncounted :: "writer list \<Rightarrow> batch multiset" where
  "uncounted ws = sum_list (map (\<lambda>w. case w of Counting b \<Rightarrow> {#b#} | _ \<Rightarrow> {#}) ws)"

text \<open>What the batcher will still emit: what it is sending, and what it makes of the rest.\<close>

definition future :: "params \<Rightarrow> pstate \<Rightarrow> batch list" where
  "future P s = bt_out s @ (if bt_phase s = Receiving
     then batch_run (p_sz P) (budget P) (bt_state s) (series_ch s @ rd_todo s) else [])"

definition in_flight :: "params \<Rightarrow> pstate \<Rightarrow> batch multiset" where
  "in_flight P s = mset (counted s) + loads (writers s) + mset (batch_ch s) + mset (future P s)"

definition all_batches :: "params \<Rightarrow> batch list" where
  "all_batches P = batches_of (p_sz P) (budget P) (p_series P)"

lemma loads_update: "i < length ws \<Longrightarrow> loads (ws[i := w]) + writer_load (ws ! i) = loads ws + writer_load w"
  by (simp add: loads_def sum_list_map_update)

lemma loads_returned: "\<forall>w \<in> set ws. w = WriterReturned \<Longrightarrow> loads ws = {#}"
  by (induction ws) (auto simp: loads_def writer_load_def)

lemma uncounted_update:
  "i < length ws \<Longrightarrow> uncounted (ws[i := w]) + (case ws ! i of Counting b \<Rightarrow> {#b#} | _ \<Rightarrow> {#})
     = uncounted ws + (case w of Counting b \<Rightarrow> {#b#} | _ \<Rightarrow> {#})"
  unfolding uncounted_def by (rule sum_list_map_update)

lemma uncounted_returned: "\<forall>w \<in> set ws. w = WriterReturned \<Longrightarrow> uncounted ws = {#}"
  by (induction ws) (auto simp: uncounted_def)

lemma uncounted_replicate_Idle [simp]: "uncounted (replicate n Idle) = {#}"
  by (induction n) (simp_all add: uncounted_def)

text \<open>Where a writer's batch is, by its state.\<close>

lemma writer_states:
  "is_sending w \<Longrightarrow> w = Sending (in_hand w)" "is_counting w \<Longrightarrow> w = Counting (in_hand w)"
  by (cases w; simp add: is_sending_def is_counting_def in_hand_def)+

lemma load_in_hand:
  "is_sending w \<Longrightarrow> writer_load w = {#in_hand w#}" "is_counting w \<Longrightarrow> writer_load w = {#in_hand w#}"
  by (cases w; simp add: is_sending_def is_counting_def in_hand_def writer_load_def)+

lemma loads_replicate_Idle [simp]: "loads (replicate n Idle) = {#}"
  by (induction n) (simp_all add: loads_def writer_load_def)

section \<open>The invariants\<close>

definition inv_shape :: "params \<Rightarrow> pstate \<Rightarrow> bool" where
  "inv_shape P s \<longleftrightarrow> length (writers s) = num_writers P
     \<and> length (series_ch s) \<le> series_cap \<and> length (batch_ch s) \<le> batch_cap P
     \<and> (series_closed s \<longleftrightarrow> \<not> rd_running s) \<and> (batch_closed s \<longleftrightarrow> bt_phase s = BatcherReturned)
     \<and> (WriterReturned \<in> set (writers s) \<longrightarrow> batch_closed s \<and> batch_ch s = [] \<or> g_errs s \<noteq> [])"

definition inv_clean :: "params \<Rightarrow> pstate \<Rightarrow> bool" where
  "inv_clean P s \<longleftrightarrow> (g_errs s = [] \<longrightarrow>
     (rd_running s \<or> rd_todo s = [] \<and> p_read_err P = None)
     \<and> (bt_phase s = Receiving \<or> series_ch s = [] \<and> \<not> rd_running s)
     \<and> (bt_phase s = BatcherReturned \<longrightarrow> bt_out s = [])
     \<and> send_errs s = [])"

definition inv_batches :: "params \<Rightarrow> pstate \<Rightarrow> bool" where
  "inv_batches P s \<longleftrightarrow> (g_errs s = [] \<longrightarrow> in_flight P s = mset (all_batches P))"

definition sample_total :: "series_data list \<Rightarrow> nat" where
  "sample_total sds = sum_list (map (\<lambda>sd. length (sd_samples sd)) sds)"

definition progress_of :: "series_data list \<Rightarrow> (nat \<times> nat) list" where
  "progress_of sds = map (\<lambda>k. (k, sample_total (take k sds))) [1..<Suc (length sds)]"

definition inv_counts :: "params \<Rightarrow> pstate \<Rightarrow> bool" where
  "inv_counts P s \<longleftrightarrow> (\<exists>consumed. p_series P = consumed @ series_ch s @ rd_todo s
     \<and> series_read (stats s) = length consumed
     \<and> samples_read (stats s) = sample_total consumed
     \<and> progress_log s = progress_of consumed)
     \<and> batches_sent (stats s) = length (counted s)
     \<and> samples_sent (stats s) = sum_list (map batch_samples (counted s))"

text \<open>
  On an error path the last batch may be cut short, so what is accounted for there are the
  labelled samples: those counted, on their way or held by the batcher all come from the
  series read so far, each at most as often as it was read.
\<close>

definition batches_stream :: "batch multiset \<Rightarrow> labelled multiset" where
  "batches_stream B = (\<Sum>b \<in># B. mset (batch_stream b))"

definition emitted :: "pstate \<Rightarrow> batch multiset" where
  "emitted s = mset (counted s) + loads (writers s) + mset (batch_ch s) + mset (bt_out s)"

definition held :: "pstate \<Rightarrow> labelled multiset" where
  "held s = (if bt_phase s = Receiving then mset (batch_stream (b_batch (bt_state s))) else {#})"

definition read_so_far :: "params \<Rightarrow> pstate \<Rightarrow> series_data list" where
  "read_so_far P s = take (series_read (stats s)) (p_series P)"

definition inv_stream :: "params \<Rightarrow> pstate \<Rightarrow> bool" where
  "inv_stream P s \<longleftrightarrow> batcher_inv (p_sz P) (budget P) (bt_state s)
     \<and> batches_stream (emitted s) + held s \<subseteq># mset (concat (map series_stream (read_so_far P s)))"

text \<open>A dry run sends nothing; otherwise what is counted, or about to be, is what \<^verbatim>\<open>Send\<close> took.\<close>

definition inv_delivered :: "params \<Rightarrow> pstate \<Rightarrow> bool" where
  "inv_delivered P s \<longleftrightarrow>
     (if p_dry_run P then delivered s = [] \<and> send_errs s = [] else mset (delivered s) = mset (counted s) + uncounted (writers s))"

definition pipeline_inv :: "params \<Rightarrow> pstate \<Rightarrow> bool" where
  "pipeline_inv P s \<longleftrightarrow> inv_shape P s \<and> inv_clean P s \<and> inv_batches P s \<and> inv_counts P s \<and> inv_stream P s \<and> inv_delivered P s"

section \<open>They hold at the start\<close>

lemma inv_start: "pipeline_inv P (init_state P)"
proof -
  have "inv_shape P (init_state P)" "inv_clean P (init_state P)" "inv_counts P (init_state P)"
    by (simp_all add: inv_shape_def inv_clean_def inv_counts_def init_state_def sample_total_def progress_of_def)
  moreover have "inv_batches P (init_state P)"
    by (simp add: inv_batches_def init_state_def in_flight_def future_def all_batches_def batches_of_def)
  moreover have "inv_stream P (init_state P)"
    by (simp add: inv_stream_def init_state_def emitted_def held_def batches_stream_def empty_batcher_def)
      (simp add: empty_batcher_def [symmetric])
  moreover have "inv_delivered P (init_state P)" by (simp add: inv_delivered_def init_state_def)
  ultimately show ?thesis by (simp add: pipeline_inv_def)
qed

section \<open>Every action keeps them\<close>

lemma return_err_simps [simp]:
  "rd_running (return_err e s) = rd_running s" "rd_todo (return_err e s) = rd_todo s"
  "series_ch (return_err e s) = series_ch s" "series_closed (return_err e s) = series_closed s"
  "bt_phase (return_err e s) = bt_phase s" "bt_state (return_err e s) = bt_state s"
  "bt_out (return_err e s) = bt_out s" "batch_ch (return_err e s) = batch_ch s"
  "batch_closed (return_err e s) = batch_closed s" "writers (return_err e s) = writers s"
  "stats (return_err e s) = stats s" "parent_ctx (return_err e s) = parent_ctx s"
  "progress_log (return_err e s) = progress_log s" "delivered (return_err e s) = delivered s"
  "send_errs (return_err e s) = send_errs s" "counted (return_err e s) = counted s"
  "g_errs (return_err e s) = g_errs s @ (case e of None \<Rightarrow> [] | Some x \<Rightarrow> [x])"
  by (simp_all add: return_err_def)

lemma set_update_returned: "WriterReturned \<in> set (ws[i := w]) \<Longrightarrow> w \<noteq> WriterReturned \<Longrightarrow> WriterReturned \<in> set ws"
  using set_update_subset_insert by fastforce

lemma inv_shape_step: "inv_shape P s \<Longrightarrow> enabled P a s \<Longrightarrow> inv_shape P (perform P a s)"
  by (cases a) (auto simp: inv_shape_def Let_def split: prod.splits option.splits
      dest: set_update_returned)

lemma inv_clean_step: "inv_shape P s \<Longrightarrow> inv_clean P s \<Longrightarrow> enabled P a s \<Longrightarrow> inv_clean P (perform P a s)"
  by (cases a) (auto simp: inv_clean_def inv_shape_def Let_def gctx_err_def
      split: prod.splits option.splits if_splits)

lemma batch_run_snoc_hd:
  "series_ch s \<noteq> [] \<Longrightarrow> batch_step sz maxB st (hd (series_ch s)) = (st', out) \<Longrightarrow>
     batch_run sz maxB st (series_ch s @ xs) = out @ batch_run sz maxB st' (tl (series_ch s) @ xs)"
  by (cases "series_ch s") auto

lemma in_flight_step:
  assumes "enabled P a s" "inv_shape P s" "inv_clean P s" "g_errs (perform P a s) = []"
  shows "in_flight P (perform P a s) = in_flight P s"
proof (cases a)
  case ReaderSend
  with assms(1) show ?thesis by (cases "rd_todo s") (simp_all add: in_flight_def future_def)
next
  case BatcherRecv
  with assms(1) show ?thesis
    by (simp add: in_flight_def future_def Let_def batch_run_snoc_hd split: prod.splits)
next
  case BatcherSend
  with assms(1) show ?thesis by (cases "bt_out s") (simp_all add: in_flight_def future_def)
next
  case BatcherEof
  with assms have "rd_todo s = []" by (auto simp: inv_shape_def inv_clean_def)
  with BatcherEof assms(1) show ?thesis by (simp add: in_flight_def future_def)
next
  case (WriterRecv i)
  with assms(1) have i: "i < length (writers s)" "writer_load (writers s ! i) = {#}" "batch_ch s \<noteq> []"
    by (auto simp: writer_load_def)
  then show ?thesis
    using loads_update [OF i(1), of "Sending (hd (batch_ch s))"] WriterRecv
    by (cases "batch_ch s") (simp_all add: in_flight_def future_def writer_load_def)
next
  case (WriterSkip i)
  with assms(1) have i: "i < length (writers s)" "is_sending (writers s ! i)" by auto
  then show ?thesis
    using loads_update [OF i(1), of "Counting (in_hand (writers s ! i))"] WriterSkip load_in_hand(1) [OF i(2)]
    by (simp add: in_flight_def future_def writer_load_def)
next
  case (WriterSent i)
  with assms(1) have i: "i < length (writers s)" "is_sending (writers s ! i)" by auto
  then show ?thesis
    using loads_update [OF i(1), of "Counting (in_hand (writers s ! i))"] WriterSent load_in_hand(1) [OF i(2)]
    by (simp add: in_flight_def future_def writer_load_def)
next
  case (WriterCount i)
  with assms(1) have i: "i < length (writers s)" "is_counting (writers s ! i)" by auto
  then show ?thesis
    using loads_update [OF i(1), of Idle] WriterCount load_in_hand(2) [OF i(2)]
    by (simp add: in_flight_def future_def writer_load_def Let_def)
next
  case (WriterEof i)
  with assms(1) have i: "i < length (writers s)" "writer_load (writers s ! i) = {#}"
    by (auto simp: writer_load_def)
  then show ?thesis
    using loads_update [OF i(1), of WriterReturned] WriterEof
    by (simp add: in_flight_def future_def writer_load_def)
qed (use assms in \<open>auto simp: in_flight_def future_def split: option.splits\<close>)

lemma g_errs_sticky: "g_errs (perform P a s) = [] \<Longrightarrow> g_errs s = []"
  by (cases a) (auto simp: Let_def split: prod.splits option.splits)

lemma inv_batches_step:
  "inv_shape P s \<Longrightarrow> inv_clean P s \<Longrightarrow> inv_batches P s \<Longrightarrow> enabled P a s \<Longrightarrow> inv_batches P (perform P a s)"
  by (auto simp: inv_batches_def in_flight_step dest: g_errs_sticky)

lemma sample_total_simps [simp]:
  "sample_total [] = 0" "sample_total (sd # sds) = length (sd_samples sd) + sample_total sds"
  "sample_total (xs @ ys) = sample_total xs + sample_total ys"
  by (simp_all add: sample_total_def)

lemma progress_of_snoc:
  "progress_of (sds @ [sd]) = progress_of sds @ [(Suc (length sds), sample_total sds + length (sd_samples sd))]"
proof -
  have "map (\<lambda>k. (k, sample_total (take k (sds @ [sd])))) [1..<Suc (length sds)]
      = map (\<lambda>k. (k, sample_total (take k sds))) [1..<Suc (length sds)]"
    by (rule map_cong) auto
  then show ?thesis by (simp add: progress_of_def Suc_le_eq)
qed

lemma inv_counts_recv:
  assumes "inv_counts P s" "enabled P BatcherRecv s"
  shows "inv_counts P (perform P BatcherRecv s)"
proof -
  from assms(2) obtain sd ch where ch: "series_ch s = sd # ch" by (cases "series_ch s") auto
  from assms(1) obtain consumed where c: "p_series P = consumed @ series_ch s @ rd_todo s"
    "series_read (stats s) = length consumed" "samples_read (stats s) = sample_total consumed"
    "progress_log s = progress_of consumed" by (auto simp: inv_counts_def)
  have "p_series P = (consumed @ [sd]) @ ch @ rd_todo s" by (simp add: c ch)
  moreover have "progress_log s @ [(Suc (length consumed), sample_total consumed + length (sd_samples sd))]
      = progress_of (consumed @ [sd])" by (simp add: c progress_of_snoc)
  ultimately show ?thesis using assms(1) c(2,3)
    unfolding inv_counts_def
    by (intro conjI exI [of _ "consumed @ [sd]"]) (simp_all add: ch Let_def split: prod.splits)
qed

lemma inv_counts_step: "inv_counts P s \<Longrightarrow> enabled P a s \<Longrightarrow> inv_counts P (perform P a s)"
proof (cases a)
  case ReaderSend
  assume "inv_counts P s" "enabled P a s"
  with ReaderSend show ?thesis by (cases "rd_todo s") (auto simp: inv_counts_def)
next
  case BatcherRecv
  assume "inv_counts P s" "enabled P a s"
  with BatcherRecv inv_counts_recv show ?thesis by blast
qed (auto simp: inv_counts_def Let_def)

lemma batches_stream_simps [simp]:
  "batches_stream {#} = {#}" "batches_stream (add_mset b B) = mset (batch_stream b) + batches_stream B"
  "batches_stream (A + B) = batches_stream A + batches_stream B"
  by (simp_all add: batches_stream_def)

lemma batches_stream_mset: "batches_stream (mset bs) = mset (concat (map batch_stream bs))"
  by (induction bs) simp_all

lemma inv_stream_recv:
  assumes "inv_stream P s" "inv_counts P s" "enabled P BatcherRecv s"
  shows "inv_stream P (perform P BatcherRecv s)"
proof -
  obtain sd ch where ch: "series_ch s = sd # ch" using assms(3) by (cases "series_ch s") auto
  obtain st' out where st: "batch_step (p_sz P) (budget P) (bt_state s) sd = (st', out)" by fastforce
  have bi: "batcher_inv (p_sz P) (budget P) (bt_state s)" using assms(1) by (simp add: inv_stream_def)
  define E where "E = batches_stream (mset (counted s) + loads (writers s) + mset (batch_ch s))"
  have run: "bt_phase s = Receiving" "bt_out s = []" using assms(3) by auto
  have "mset (concat (map batch_stream out)) + mset (batch_stream (b_batch st'))
      = mset (batch_stream (b_batch (bt_state s)) @ series_stream sd)"
    using byte_budget.step_stream [OF bi st] by (metis mset_append)
  then have "E + mset (concat (map batch_stream out)) + mset (batch_stream (b_batch st'))
      = (E + mset (batch_stream (b_batch (bt_state s)))) + mset (series_stream sd)"
    by (simp add: add.assoc)
  also have "\<dots> \<subseteq># mset (concat (map series_stream (read_so_far P s))) + mset (series_stream sd)"
    using assms(1) run by (intro subset_mset.add_right_mono) (simp add: inv_stream_def emitted_def held_def E_def)
  also have "\<dots> = mset (concat (map series_stream (take (Suc (series_read (stats s))) (p_series P))))"
    using assms(2) by (auto simp: inv_counts_def read_so_far_def ch)
  finally show ?thesis
    using run byte_budget.step_inv [OF bi st]
    by (simp add: inv_stream_def ch st Let_def emitted_def held_def read_so_far_def E_def
        flip: batches_stream_mset)
qed

lemma emitted_step:
  assumes "enabled P a s" "a \<noteq> BatcherRecv"
  shows "batches_stream (emitted (perform P a s)) + held (perform P a s)
     \<subseteq># batches_stream (emitted s) + held s"
proof (cases a)
  case BatcherSend
  with assms show ?thesis by (cases "bt_out s") (simp_all add: emitted_def held_def)
next
  case BatcherCancel
  then show ?thesis by (simp add: emitted_def held_def)
next
  case BatcherEof
  with assms show ?thesis by (simp add: emitted_def held_def batches_stream_mset)
next
  case (WriterRecv i)
  with assms have i: "i < length (writers s)" "writer_load (writers s ! i) = {#}" "batch_ch s \<noteq> []"
    by (auto simp: writer_load_def)
  then show ?thesis
    using loads_update [OF i(1), of "Sending (hd (batch_ch s))"] WriterRecv
    by (cases "batch_ch s") (simp_all add: emitted_def held_def writer_load_def)
next
  case (WriterSkip i)
  with assms have i: "i < length (writers s)" "is_sending (writers s ! i)" by auto
  have "loads (writers s) = loads ((writers s)[i := Counting (in_hand (writers s ! i))])"
    using loads_update [OF i(1), of "Counting (in_hand (writers s ! i))"] load_in_hand(1) [OF i(2)] by (simp add: writer_load_def)
  then show ?thesis using WriterSkip by (simp add: emitted_def held_def)
next
  case (WriterSent i)
  with assms have i: "i < length (writers s)" "is_sending (writers s ! i)" by auto
  have "loads (writers s) = loads ((writers s)[i := Counting (in_hand (writers s ! i))])"
    using loads_update [OF i(1), of "Counting (in_hand (writers s ! i))"] load_in_hand(1) [OF i(2)] by (simp add: writer_load_def)
  then show ?thesis using WriterSent by (simp add: emitted_def held_def)
next
  case (WriterCount i)
  with assms have i: "i < length (writers s)" "is_counting (writers s ! i)" by auto
  have "loads (writers s) = add_mset (in_hand (writers s ! i)) (loads ((writers s)[i := Idle]))"
    using loads_update [OF i(1), of Idle] load_in_hand(2) [OF i(2)] by (simp add: writer_load_def)
  then show ?thesis using WriterCount by (simp add: emitted_def held_def Let_def)
next
  case (WriterFail i e)
  with assms have i: "i < length (writers s)" by simp
  have "loads (writers s) = loads ((writers s)[i := WriterReturned]) + writer_load (writers s ! i)"
    using loads_update [OF i, of WriterReturned] by (simp add: writer_load_def)
  then show ?thesis using WriterFail by (simp add: emitted_def held_def)
next
  case (WriterEof i)
  with assms have i: "i < length (writers s)" "writer_load (writers s ! i) = {#}"
    by (auto simp: writer_load_def)
  then show ?thesis
    using loads_update [OF i(1), of WriterReturned] WriterEof
    by (simp add: emitted_def held_def writer_load_def)
qed (use assms in \<open>simp_all add: emitted_def held_def\<close>)

lemma perform_frame:
  "a \<noteq> BatcherRecv \<Longrightarrow> bt_state (perform P a s) = bt_state s
     \<and> series_read (stats (perform P a s)) = series_read (stats s)"
  by (cases a) (simp_all add: Let_def)

lemma inv_stream_step:
  "inv_stream P s \<Longrightarrow> inv_counts P s \<Longrightarrow> enabled P a s \<Longrightarrow> inv_stream P (perform P a s)"
proof (cases "a = BatcherRecv")
  case False
  assume "inv_stream P s" "enabled P a s"
  with False emitted_step [of P a s] perform_frame [of a P s] show ?thesis
    by (auto simp: inv_stream_def read_so_far_def intro: subset_mset.order_trans)
qed (blast intro: inv_stream_recv)

lemma inv_delivered_step:
  assumes "inv_delivered P s" "enabled P a s"
  shows "inv_delivered P (perform P a s)"
proof (cases "\<exists>i. a \<in> {WriterRecv i, WriterSkip i, WriterSent i, WriterCount i, WriterEof i} \<or> (\<exists>e. a = WriterFail i e)")
  case True
  then obtain i where a: "a \<in> {WriterRecv i, WriterSkip i, WriterSent i, WriterCount i, WriterEof i} \<or> (\<exists>e. a = WriterFail i e)" by blast
  with assms(2) have i: "i < length (writers s)" by auto
  note upd = uncounted_update [OF i]
  show ?thesis
    using a assms upd [of "Sending (hd (batch_ch s))"] upd [of "Counting (in_hand (writers s ! i))"] upd [of Idle] upd [of WriterReturned]
      writer_states [of "writers s ! i"]
    by (auto simp: inv_delivered_def Let_def is_sending_def is_counting_def split: writer.splits if_splits)
qed (use assms in \<open>cases a; auto simp: inv_delivered_def Let_def split: prod.splits\<close>)

lemmas inv_steps = inv_shape_step inv_clean_step inv_batches_step inv_counts_step inv_stream_step inv_delivered_step

lemma pipeline_inv_step: "pipeline_inv P s \<Longrightarrow> pipeline_step P s a t \<Longrightarrow> pipeline_inv P t"
  by (auto simp: pipeline_inv_def pipeline_step_iff intro: inv_steps)

section \<open>The first error\<close>

text \<open>
  What can make the first goroutine fail: the read, the caller's cancellation, or a failed \<^verbatim>\<open>Send\<close>; never
  the cancellation that the group itself causes.
\<close>

definition root_cause :: "params \<Rightarrow> pstate \<Rightarrow> goerr \<Rightarrow> bool" where
  "root_cause P s e \<longleftrightarrow> p_read_err P = Some e
     \<or> (\<exists>c. parent_ctx s = Done c \<and> (e = c \<or> (\<exists>x. e = wrapf ''iterating series set: '' x)))
     \<or> (\<exists>x \<in> set (send_errs s). e = wrapf ''remote write: '' x)"

definition inv_cause :: "params \<Rightarrow> pstate \<Rightarrow> bool" where
  "inv_cause P s \<longleftrightarrow> (g_errs s \<noteq> [] \<longrightarrow> root_cause P s (hd (g_errs s)))"

lemma inv_cause_start: "inv_cause P (init_state P)"
  by (simp add: inv_cause_def init_state_def)

lemma root_cause_mono: "root_cause P s e \<Longrightarrow> enabled P a s \<Longrightarrow> root_cause P (perform P a s) e"
  by (cases a) (auto simp: root_cause_def Let_def split: prod.splits)

lemma no_error_no_cancel: "errgroup (p_group P) \<Longrightarrow> g_errs s = [] \<Longrightarrow> gctx_err P s = Some e \<Longrightarrow> parent_ctx s = Done e"
  by (auto simp: gctx_err_def errgroup.cancelled_iff split: ctx.splits)

lemma first_error_cause:
  assumes "errgroup (p_group P)" "g_errs s = []" "enabled P a s" "g_errs (perform P a s) = e # es"
  shows "root_cause P (perform P a s) e"
  using assms(2-4) no_error_no_cancel [OF assms(1,2)]
  by (cases a) (auto simp: root_cause_def Let_def split: prod.splits option.splits)

lemma g_errs_grow: "\<exists>es. g_errs (perform P a s) = g_errs s @ es"
  by (cases a) (auto simp: Let_def split: prod.splits)

lemma inv_cause_step:
  assumes "errgroup (p_group P)" "inv_cause P s" "enabled P a s"
  shows "inv_cause P (perform P a s)"
proof (cases "g_errs s")
  case Nil
  show ?thesis
    using first_error_cause [OF assms(1) Nil assms(3)] by (cases "g_errs (perform P a s)") (auto simp: inv_cause_def)
next
  case (Cons e es)
  obtain fs where "g_errs (perform P a s) = g_errs s @ fs" using g_errs_grow [of P a s] by blast
  then show ?thesis using assms(2) root_cause_mono [OF _ assms(3)] Cons by (simp add: inv_cause_def)
qed

section \<open>Termination and progress\<close>

definition writer_weight :: "writer \<Rightarrow> nat" where
  "writer_weight w = (case w of Idle \<Rightarrow> 1 | Counting _ \<Rightarrow> 2 | Sending _ \<Rightarrow> 3 | WriterReturned \<Rightarrow> 0)"

definition phase_weight :: "batcher_phase \<Rightarrow> nat" where
  "phase_weight p = (case p of Receiving \<Rightarrow> 2 | Flushing \<Rightarrow> 1 | BatcherReturned \<Rightarrow> 0)"

text \<open>An upper bound on the number of actions that can still happen.\<close>

definition work_left :: "params \<Rightarrow> pstate \<Rightarrow> nat" where
  "work_left P s = (if rd_running s then 1 else 0) + 2 * length (rd_todo s) + length (series_ch s)
     + phase_weight (bt_phase s) + 4 * length (future P s) + 3 * length (batch_ch s)
     + sum_list (map writer_weight (writers s)) + (if parent_ctx s = Live then 1 else 0)"

lemma weight_update:
  "i < length ws \<Longrightarrow> sum_list (map writer_weight (ws[i := w])) + writer_weight (ws ! i)
     = sum_list (map writer_weight ws) + writer_weight w"
  by (rule sum_list_map_update)

lemma batch_run_flushes: "length (send_batch (b_batch st)) \<le> length (batch_run sz maxB st sds)"
proof (induction sds arbitrary: st)
  case (Cons sd sds)
  show ?case
    using Cons.IH [of st] Cons.IH [of "\<lparr>b_batch = b_batch st @ [\<lparr>ts_labels = sd_labels sd, ts_samples = sd_samples sd\<rparr>],
        b_bytes = b_bytes st + sz \<lparr>ts_labels = sd_labels sd, ts_samples = sd_samples sd\<rparr>\<rparr>"]
    by (auto simp: batch_step_def Let_def send_batch_def split: if_splits)
qed simp

lemma work_left_step: "enabled P a s \<Longrightarrow> work_left P (perform P a s) < work_left P s"
proof (cases a)
  case ReaderSend
  assume "enabled P a s"
  with ReaderSend show ?thesis by (cases "rd_todo s") (simp_all add: work_left_def future_def)
next
  case BatcherRecv
  assume "enabled P a s"
  with BatcherRecv show ?thesis
    by (simp add: work_left_def future_def Let_def batch_run_snoc_hd split: prod.splits)
next
  case BatcherSend
  assume "enabled P a s"
  with BatcherSend show ?thesis by (cases "bt_out s") (simp_all add: work_left_def future_def)
next
  case BatcherEof
  assume "enabled P a s"
  with BatcherEof batch_run_flushes [of "bt_state s" "p_sz P" "budget P" "rd_todo s"] show ?thesis
    by (simp add: work_left_def future_def phase_weight_def)
next
  case (WriterRecv i)
  assume "enabled P a s"
  with WriterRecv weight_update [of i "writers s" "Sending (hd (batch_ch s))"] show ?thesis
    by (cases "batch_ch s") (simp_all add: work_left_def future_def writer_weight_def)
next
  case (WriterSkip i)
  assume "enabled P a s"
  with WriterSkip weight_update [of i "writers s" "Counting (in_hand (writers s ! i))"] show ?thesis
    by (simp add: work_left_def future_def writer_weight_def is_sending_def split: writer.splits)
next
  case (WriterSent i)
  assume "enabled P a s"
  with WriterSent weight_update [of i "writers s" "Counting (in_hand (writers s ! i))"] show ?thesis
    by (simp add: work_left_def future_def writer_weight_def is_sending_def split: writer.splits)
next
  case (WriterCount i)
  assume "enabled P a s"
  with WriterCount weight_update [of i "writers s" Idle] show ?thesis
    by (simp add: work_left_def future_def writer_weight_def is_counting_def Let_def split: writer.splits)
next
  case (WriterFail i e)
  assume "enabled P a s"
  with WriterFail weight_update [of i "writers s" WriterReturned] show ?thesis
    by (simp add: work_left_def future_def writer_weight_def is_sending_def split: writer.splits)
next
  case (WriterEof i)
  assume "enabled P a s"
  with WriterEof weight_update [of i "writers s" WriterReturned] show ?thesis
    by (simp add: work_left_def future_def writer_weight_def)
qed (auto simp: work_left_def future_def phase_weight_def split: batcher_phase.splits)

definition of_goroutine :: "action \<Rightarrow> bool" where
  "of_goroutine a = (case a of ParentCancel _ \<Rightarrow> False | _ \<Rightarrow> True)"

lemma of_goroutine_facts:
  "of_goroutine ReaderSend" "of_goroutine ReaderReturn" "of_goroutine ReaderCancel"
  "of_goroutine BatcherRecv" "of_goroutine BatcherSend" "of_goroutine BatcherCancel"
  "of_goroutine BatcherEof" "of_goroutine BatcherReturn" "of_goroutine (WriterRecv i)"
  "of_goroutine (WriterSkip i)" "of_goroutine (WriterSent i)" "of_goroutine (WriterCount i)" "of_goroutine (WriterEof i)"
  by (simp_all add: of_goroutine_def)

lemma reader_progress:
  assumes "rd_running s" "length (series_ch s) < series_cap"
  shows "\<exists>a. enabled P a s \<and> of_goroutine a"
  using assms by (cases "rd_todo s") (auto intro: exI [of _ ReaderSend] exI [of _ ReaderReturn] simp: of_goroutine_def)

lemma batcher_progress:
  assumes "inv_shape P s" "bt_phase s \<noteq> BatcherReturned"
    and "batch_ch s = [] \<or> gctx_err P s \<noteq> None"
  shows "\<exists>a. enabled P a s \<and> of_goroutine a"
proof (cases "bt_out s")
  case Nil
  show ?thesis
  proof (cases "bt_phase s")
    case Receiving
    show ?thesis
    proof (cases "series_ch s")
      case None: Nil
      show ?thesis
      proof (cases "rd_running s")
        case True
        with None show ?thesis by (intro reader_progress) (auto simp: series_cap_def)
      next
        case False
        with Nil Receiving None assms(1) have "enabled P BatcherEof s" by (simp add: inv_shape_def)
        then show ?thesis by (blast intro: of_goroutine_facts)
      qed
    next
      case (Cons sd ch)
      with Nil Receiving have "enabled P BatcherRecv s" by simp
      then show ?thesis by (blast intro: of_goroutine_facts)
    qed
  next
    case Flushing
    with Nil have "enabled P BatcherReturn s" by simp
    then show ?thesis by (blast intro: of_goroutine_facts)
  qed (use assms in simp)
next
  case (Cons b bs)
  have "0 < batch_cap P" by (simp add: batch_cap_def num_writers_def eff_writer_concurrency_pos)
  with Cons assms(2,3) have "enabled P BatcherSend s \<or> enabled P BatcherCancel s" by auto
  then show ?thesis by (blast intro: of_goroutine_facts)
qed

lemma writers_nonempty:
  assumes "inv_shape P s" "\<forall>w \<in> set (writers s). w = WriterReturned"
  shows "WriterReturned \<in> set (writers s)"
proof -
  have "writers s \<noteq> []"
    using assms(1) eff_writer_concurrency_pos [of "p_writer_concurrency P"] by (auto simp: inv_shape_def num_writers_def)
  then show ?thesis using assms(2) by (cases "writers s") auto
qed

lemma cancelled_by_error: "errgroup (p_group P) \<Longrightarrow> g_errs s \<noteq> [] \<Longrightarrow> gctx_err P s \<noteq> None"
  by (auto simp: gctx_err_def errgroup.cancelled_iff split: ctx.splits)

lemma progress_without_writers:
  assumes "errgroup (p_group P)" "inv_shape P s" "inv_clean P s" "\<not> all_returned s" and returned: "\<forall>w \<in> set (writers s). w = WriterReturned"
  shows "\<exists>a. enabled P a s \<and> of_goroutine a"
proof -
  have "WriterReturned \<in> set (writers s)" using assms(2) returned by (rule writers_nonempty)
  then have closed: "bt_phase s = BatcherReturned \<or> g_errs s \<noteq> []"
    using assms(2) by (auto simp: inv_shape_def)
  show ?thesis
  proof (cases "bt_phase s = BatcherReturned")
    case False
    with closed have "gctx_err P s \<noteq> None" using cancelled_by_error [OF assms(1)] by blast
    with False assms(2) show ?thesis by (intro batcher_progress) auto
  next
    case bt: True
    with returned assms(3,4) have "rd_running s" "g_errs s \<noteq> []" by (auto simp: all_returned_def inv_clean_def)
    then have "enabled P ReaderReturn s \<or> enabled P ReaderCancel s"
      using cancelled_by_error [OF assms(1)] by auto
    then show ?thesis by (blast intro: of_goroutine_facts)
  qed
qed

lemma progress_with_writer:
  assumes "inv_shape P s" and i: "i < length (writers s)" "writers s ! i \<noteq> WriterReturned"
  shows "\<exists>a. enabled P a s \<and> of_goroutine a"
proof (cases "writers s ! i")
  case (Sending b)
  with i have "enabled P (WriterSkip i) s \<or> enabled P (WriterSent i) s" by (simp add: is_sending_def)
  then show ?thesis by (blast intro: of_goroutine_facts)
next
  case (Counting b)
  with i have "enabled P (WriterCount i) s" by (simp add: is_counting_def)
  then show ?thesis by (blast intro: of_goroutine_facts)
next
  case Idle
  show ?thesis
  proof (cases "batch_ch s = []")
    case True
    show ?thesis
    proof (cases "bt_phase s = BatcherReturned")
      case True
      with \<open>batch_ch s = []\<close> i Idle assms(1) have "enabled P (WriterEof i) s" by (simp add: inv_shape_def)
      then show ?thesis by (blast intro: of_goroutine_facts)
    qed (use assms(1) True in \<open>auto intro: batcher_progress\<close>)
  next
    case False
    with i Idle have "enabled P (WriterRecv i) s" by simp
    then show ?thesis by (blast intro: of_goroutine_facts)
  qed
qed (use i in simp)

lemma pipeline_progress:
  assumes "errgroup (p_group P)" "inv_shape P s" "inv_clean P s" "\<not> all_returned s"
  shows "\<exists>a. enabled P a s \<and> of_goroutine a"
proof (cases "\<forall>w \<in> set (writers s). w = WriterReturned")
  case False
  then show ?thesis using progress_with_writer [OF assms(2)] by (fastforce simp: in_set_conv_nth)
qed (rule progress_without_writers [OF assms])

end
