(* ===== verification/Pipeline_Correct.thy ===== *)
theory Pipeline_Correct
  imports Pipeline_Invariant
begin

text \<open>
  The properties of \<^verbatim>\<open>migration.Run\<close>, over every schedule of its goroutines: what a run that
  reports success has delivered, what any run can have delivered, that no schedule deadlocks
  or runs forever, what error is reported, and what the progress function is told.
\<close>

interpretation pipe: invariant_machine "init_state P" "pipeline_step P" "pipeline_inv P" for P
  by unfold_locales (rule inv_start, rule pipeline_inv_step)

text \<open>On an errgroup that keeps its contract the pipeline terminates, and its first error has a root cause.\<close>

locale grouped_pipeline = errgroup "p_group P" for P :: params

sublocale grouped_pipeline \<subseteq> run: terminating_machine "init_state P" "pipeline_step P" "pipeline_inv P" all_returned "work_left P"
proof
  fix s a t
  show "pipeline_inv P s \<Longrightarrow> pipeline_step P s a t \<Longrightarrow> work_left P t < work_left P s"
    by (auto simp: pipeline_step_iff work_left_step)
  show "pipeline_inv P s \<Longrightarrow> \<not> all_returned s \<Longrightarrow> \<exists>a t. pipeline_step P s a t"
    using pipeline_progress [OF errgroup_axioms, of s] by (auto simp: pipeline_inv_def pipeline_step_iff)
qed

sublocale grouped_pipeline \<subseteq> causes: invariant_machine "init_state P" "pipeline_step P" "inv_cause P"
  by unfold_locales (auto simp: inv_cause_start pipeline_step_iff intro: inv_cause_step [OF errgroup_axioms])

context grouped_pipeline begin

lemma path_bound: "path (pipeline_step P) (init_state P) as s \<Longrightarrow> length as \<le> work_left P (init_state P)"
  by (drule run.path_bound [OF run.inv_start]) simp

lemma can_finish: "reachable P s \<Longrightarrow> \<exists>as t. path (pipeline_step P) s as t \<and> all_returned t"
  by (rule run.can_finish) (rule run.reach_inv)

lemma first_error_has_cause: "reachable P s \<Longrightarrow> g_errs s \<noteq> [] \<Longrightarrow> root_cause P s (hd (g_errs s))"
  using causes.reach_inv by (simp add: inv_cause_def)

end

lemma run_schedule_path: "run_schedule P as s = Some t \<longleftrightarrow> path (pipeline_step P) s as t"
  by (induction as arbitrary: s) (auto simp: pipeline_step_iff)

lemma run_schedule_reachable: "run_schedule P as (init_state P) = Some s \<Longrightarrow> reachable P s"
  by (auto simp: run_schedule_path intro: path_reach reach_start)

section \<open>The result of a run\<close>

text \<open>
  \<^verbatim>\<open>Run\<close> as a relation between its inputs and a possible outcome: nil provider first, then the
  state of some schedule in which every goroutine has returned. \<open>read\<close> is what the reader does
  on the provider when it is not cancelled: the series it sends and the error it ends with.
\<close>

definition run_params :: "errgroup_ops \<Rightarrow> size_fn \<Rightarrow> 'p pipeline_config \<Rightarrow> series_data list \<Rightarrow> goerr option \<Rightarrow> params" where
  "run_params G sz cfg sds rerr =
     \<lparr>p_group = G, p_sz = sz, p_max_batch_bytes = pc_max_batch_bytes cfg,
      p_writer_concurrency = pc_writer_concurrency cfg, p_dry_run = pc_dry_run cfg,
      p_series = sds, p_read_err = rerr\<rparr>"

definition empty_stats :: pipeline_stats where
  "empty_stats = \<lparr>series_read = 0, samples_read = 0, batches_sent = 0, samples_sent = 0\<rparr>"

definition pipeline_reader_config :: "'p pipeline_config \<Rightarrow> reader_config" where
  "pipeline_reader_config cfg = \<lparr>rc_tsdb_path = [], rc_tenant_id = pc_tenant_id cfg,
     rc_min_time = pc_min_time cfg, rc_max_time = pc_max_time cfg\<rparr>"

record run_outcome =
  ro_stats :: pipeline_stats
  ro_err :: "goerr option"
  ro_progress :: "(nat \<times> nat) list"
  ro_delivered :: "batch list"
  ro_counted :: "batch list"
  ro_send_errs :: "goerr list"
  ro_ctx :: ctx

text \<open>
  What \<^verbatim>\<open>Run\<close> returns, and what it did: the calls of the progress function, the batches whose \<^verbatim>\<open>Send\<close> returned
  nil, those counted as sent, the errors of \<^verbatim>\<open>Send\<close>, and the caller's context at the end.
\<close>

definition outcome_of :: "errgroup_ops \<Rightarrow> pstate \<Rightarrow> run_outcome" where
  "outcome_of G s = \<lparr>ro_stats = stats s, ro_err = eg_wait G (g_errs s), ro_progress = progress_log s, ro_delivered = delivered s,
     ro_counted = counted s, ro_send_errs = send_errs s, ro_ctx = parent_ctx s\<rparr>"

inductive run_pipeline ::
  "errgroup_ops \<Rightarrow> size_fn \<Rightarrow> (reader_config \<Rightarrow> 'p \<Rightarrow> series_data list \<times> goerr option) \<Rightarrow> 'p pipeline_config \<Rightarrow> run_outcome \<Rightarrow> bool"
  for G sz read cfg where
  no_provider: "pc_provider cfg = None \<Longrightarrow>
     run_pipeline G sz read cfg \<lparr>ro_stats = empty_stats,
       ro_err = Some (errors_new ''pipeline: cfg.Provider is required''), ro_progress = [], ro_delivered = [],
       ro_counted = [], ro_send_errs = [], ro_ctx = c\<rparr>"
| completed: "pc_provider cfg = Some p \<Longrightarrow> read (pipeline_reader_config cfg) p = (sds, rerr) \<Longrightarrow>
     reachable (run_params G sz cfg sds rerr) s \<Longrightarrow> all_returned s \<Longrightarrow>
     run_pipeline G sz read cfg (outcome_of G s)"

section \<open>Facts about reachable states\<close>

lemma reachable_inv: "reachable P s \<Longrightarrow> pipeline_inv P s"
  by (rule pipe.reach_inv)

lemma finished_clean:
  assumes "reachable P s" "all_returned s" "g_errs s = []"
  shows "mset (counted s) = mset (all_batches P)" "rd_todo s = []" "series_ch s = []"
    "p_read_err P = None"
proof -
  have inv: "pipeline_inv P s" by (rule reachable_inv [OF assms(1)])
  with assms(2,3) have c: "rd_todo s = []" "series_ch s = []" "bt_out s = []" "p_read_err P = None"
    by (auto simp: pipeline_inv_def inv_clean_def all_returned_def)
  then show "rd_todo s = []" "series_ch s = []" "p_read_err P = None" by auto
  have "loads (writers s) = {#}"
    using assms(2) by (auto simp: all_returned_def intro: loads_returned)
  moreover have "batch_ch s = []"
    using inv assms writers_nonempty [of P s] by (auto simp: pipeline_inv_def inv_shape_def all_returned_def)
  ultimately show "mset (counted s) = mset (all_batches P)"
    using inv assms c by (simp add: pipeline_inv_def inv_batches_def in_flight_def future_def all_returned_def)
qed

lemma run_params_simps [simp]:
  "p_series (run_params G sz cfg sds rerr) = sds" "p_read_err (run_params G sz cfg sds rerr) = rerr"
  "p_sz (run_params G sz cfg sds rerr) = sz"
  "budget (run_params G sz cfg sds rerr) = eff_max_batch_bytes (pc_max_batch_bytes cfg)"
  by (simp_all add: run_params_def budget_def)

lemma samples_of_batches: "sum_list (map batch_samples bs) = size (mset (concat (map batch_stream bs)))"
  by (induction bs) (auto simp: length_batch_stream)

lemma samples_of_series: "sample_total sds = size (mset (concat (map series_stream sds)))"
  by (induction sds) (auto simp: series_stream_def)

lemma finished_stats:
  assumes "reachable P s" "all_returned s" "g_errs s = []"
  shows "stats s = \<lparr>series_read = length (p_series P), samples_read = sample_total (p_series P),
     batches_sent = length (all_batches P), samples_sent = sample_total (p_series P)\<rparr>"
proof -
  have c: "inv_counts P s" using reachable_inv [OF assms(1)] by (simp add: pipeline_inv_def)
  have d: "mset (counted s) = mset (all_batches P)" by (rule finished_clean [OF assms])
  have "sum_list (map batch_samples (counted s)) = sum_list (map batch_samples (all_batches P))"
    using d by (metis mset_map sum_mset_sum_list)
  also have "\<dots> = sample_total (p_series P)"
    by (simp only: samples_of_batches samples_of_series all_batches_def batches_of_stream)
  finally show ?thesis
    using c finished_clean(2,3) [OF assms] mset_eq_length [OF d]
    by (auto simp: inv_counts_def intro: pipeline_stats.equality)
qed

text \<open>When every goroutine has returned, what was counted is what \<^verbatim>\<open>Send\<close> took, or nothing was sent in a dry run.\<close>

lemma finished_delivered:
  assumes "reachable P s" "all_returned s"
  shows "if p_dry_run P then delivered s = [] \<and> send_errs s = [] else mset (delivered s) = mset (counted s)"
proof -
  have "inv_delivered P s" using reachable_inv [OF assms(1)] by (simp add: pipeline_inv_def)
  moreover have "uncounted (writers s) = {#}" using assms(2) by (intro uncounted_returned) (simp add: all_returned_def)
  ultimately show ?thesis by (simp add: inv_delivered_def)
qed

lemma delivered_stream_eq:
  "mset bs = mset cs \<Longrightarrow> mset (concat (map batch_stream bs)) = mset (concat (map batch_stream cs))"
  by (metis batches_stream_mset)

section \<open>Properties of the pipeline\<close>

lemma run_success:
  assumes "errgroup G" and "run_pipeline G sz read cfg r" and "ro_err r = None"
    and "pc_provider cfg = Some p" and "read (pipeline_reader_config cfg) p = (sds, rerr)"
  shows "rerr = None
    \<and> mset (ro_counted r) = mset (batches_of sz (eff_max_batch_bytes (pc_max_batch_bytes cfg)) sds)
    \<and> (if pc_dry_run cfg then ro_delivered r = []
       else mset (ro_delivered r) = mset (batches_of sz (eff_max_batch_bytes (pc_max_batch_bytes cfg)) sds)
         \<and> mset (concat (map batch_stream (ro_delivered r))) = mset (concat (map series_stream sds)))
    \<and> ro_stats r = \<lparr>series_read = length sds, samples_read = sample_total sds,
        batches_sent = length (batches_of sz (eff_max_batch_bytes (pc_max_batch_bytes cfg)) sds),
        samples_sent = sample_total sds\<rparr>"
  using assms(2)
proof cases
  case (completed p' sds' rerr' s)
  with assms have eqs: "sds' = sds" "rerr' = rerr" "g_errs s = []" by (auto simp: outcome_of_def errgroup.wait_None_iff)
  let ?P = "run_params G sz cfg sds rerr"
  have fin: "reachable ?P s" "all_returned s" "g_errs s = []" using completed eqs by auto
  have "p_dry_run ?P = pc_dry_run cfg" by (simp add: run_params_def)
  with finished_clean [OF fin] finished_stats [OF fin] finished_delivered [OF fin(1,2)] completed(1)
  show ?thesis using delivered_stream_eq [of "delivered s" "all_batches ?P"]
    by (auto simp: outcome_of_def all_batches_def batches_of_stream)
qed (use assms in simp)

text \<open>
  C2. If \<^verbatim>\<open>Run\<close> returns nil then, whatever the interleaving of reader, batcher and writers, the
  read had succeeded and the statistics are the true counts. Unless it is a dry run, the batches whose
  \<^verbatim>\<open>Send\<close> returned nil are exactly the batches of the sequential batcher (as a multiset: writers race for
  order), so every labelled sample that was read was sent exactly once. In a dry run nothing was sent: the
  batches were only counted.
\<close>

theorem run_success_delivers_everything:
  assumes "errgroup G" and "run_pipeline G sz read cfg r" and "ro_err r = None"
    and "pc_provider cfg = Some p" and "read (pipeline_reader_config cfg) p = (sds, rerr)"
  shows "rerr = None
    \<and> mset (ro_counted r) = mset (batches_of sz (eff_max_batch_bytes (pc_max_batch_bytes cfg)) sds)
    \<and> (if pc_dry_run cfg then ro_delivered r = []
       else mset (ro_delivered r) = mset (batches_of sz (eff_max_batch_bytes (pc_max_batch_bytes cfg)) sds)
         \<and> mset (concat (map batch_stream (ro_delivered r))) = mset (concat (map series_stream sds)))
    \<and> ro_stats r = \<lparr>series_read = length sds, samples_read = sample_total sds,
        batches_sent = length (batches_of sz (eff_max_batch_bytes (pc_max_batch_bytes cfg)) sds),
        samples_sent = sample_total sds\<rparr>"
  by (rule run_success [OF assms])

definition ex_schedule :: "action list" where
  "ex_schedule = [ReaderSend, ReaderReturn, BatcherRecv, BatcherEof, BatcherSend, BatcherReturn,
     WriterRecv 0, WriterSent 0, WriterCount 0, WriterEof 0]"

definition ex_pipeline_cfg :: "unit pipeline_config" where
  "ex_pipeline_cfg = \<lparr>pc_provider = Some (), pc_tenant_id = ''t1'', pc_cortex_url = ''http://c/push'',
     pc_max_batch_bytes = 100, pc_writer_concurrency = 1, pc_dry_run = False, pc_min_time = 0, pc_max_time = 0\<rparr>"

definition ex_params :: params where
  "ex_params = run_params first_error_group (\<lambda>t. 10 * length (ts_samples t)) ex_pipeline_cfg [ex_series] None"

definition ex_batch :: batch where
  "ex_batch = [\<lparr>ts_labels = ex_labels, ts_samples = sd_samples ex_series\<rparr>]"

lemma ex_step: "batch_step (p_sz ex_params) (budget ex_params) empty_batcher ex_series = (\<lparr>b_batch = ex_batch, b_bytes = 20\<rparr>, [])"
  by (simp add: ex_params_def run_params_def budget_def ex_pipeline_cfg_def eff_max_batch_bytes_def
      batch_step_def empty_batcher_def ex_series_def ex_batch_def)

lemma ex_caps: "num_writers ex_params = 1" "batch_cap ex_params = 2"
  by (simp_all add: batch_cap_def num_writers_def ex_params_def run_params_def ex_pipeline_cfg_def eff_writer_concurrency_def)

lemma ex_params_simps [simp]: "p_series ex_params = [ex_series]" "p_read_err ex_params = None"
  "p_dry_run ex_params = False"
  by (simp_all add: ex_params_def run_params_def ex_pipeline_cfg_def)

lemma ex_run: "\<exists>s. run_schedule ex_params ex_schedule (init_state ex_params) = Some s
   \<and> all_returned s \<and> g_errs s = [] \<and> delivered s = [ex_batch]"
  by (simp add: ex_schedule_def init_state_def ex_caps ex_step series_cap_def return_err_def in_hand_def is_sending_def is_counting_def
      send_batch_def ex_batch_def all_returned_def Let_def)

lemma ex_outcome: "\<exists>r. run_pipeline first_error_group (\<lambda>t. 10 * length (ts_samples t)) (\<lambda>_ _. ([ex_series], None)) ex_pipeline_cfg r
   \<and> ro_err r = None \<and> ro_delivered r = [ex_batch]"
proof -
  from ex_run obtain s where s: "run_schedule ex_params ex_schedule (init_state ex_params) = Some s"
    "all_returned s" "g_errs s = []" "delivered s = [ex_batch]" by blast
  have "run_pipeline first_error_group (\<lambda>t. 10 * length (ts_samples t)) (\<lambda>_ _. ([ex_series], None)) ex_pipeline_cfg (outcome_of first_error_group s)"
    by (rule run_pipeline.completed [where p = "()"])
      (use run_schedule_reachable [OF s(1)] s in \<open>simp_all add: ex_params_def ex_pipeline_cfg_def\<close>)
  with s show ?thesis by (auto simp: outcome_of_def feg.wait_nil)
qed

theorem run_success_delivers_everything_witness:
  "\<exists>r. run_pipeline first_error_group (\<lambda>t. 10 * length (ts_samples t)) (\<lambda>_ _. ([ex_series], None)) ex_pipeline_cfg r
    \<and> ro_err r = None \<and> samples_sent (ro_stats r) = 2
    \<and> mset (concat (map batch_stream (ro_delivered r))) = mset (series_stream ex_series)"
proof -
  from ex_outcome obtain r where r: "run_pipeline first_error_group (\<lambda>t. 10 * length (ts_samples t)) (\<lambda>_ _. ([ex_series], None)) ex_pipeline_cfg r"
    "ro_err r = None" by blast
  from run_success_delivers_everything [OF feg.errgroup_axioms r, of "()" "[ex_series]" None] r show ?thesis
    by (auto simp: ex_pipeline_cfg_def sample_total_def ex_series_def)
qed

text \<open>
  C8. Whatever happens (failed writes, a failing read, cancellation at any moment), nothing is
  delivered that was not read and nothing is delivered twice: the labelled samples of the batches
  whose \<^verbatim>\<open>Send\<close> returned nil are contained, with multiplicity, in those of the series read so far. The same
  holds of the batches counted as sent; the counters are theirs, and never exceed what was read. The two
  are the same batches, except in a dry run, which sends nothing.
\<close>

theorem run_delivers_at_most_once:
  assumes "run_pipeline G sz read cfg r"
    and "pc_provider cfg = Some p" and "read (pipeline_reader_config cfg) p = (sds, rerr)"
  shows "mset (concat (map batch_stream (ro_delivered r)))
      \<subseteq># mset (concat (map series_stream (take (series_read (ro_stats r)) sds)))
    \<and> mset (concat (map batch_stream (ro_counted r)))
      \<subseteq># mset (concat (map series_stream (take (series_read (ro_stats r)) sds)))
    \<and> batches_sent (ro_stats r) = length (ro_counted r)
    \<and> samples_sent (ro_stats r) = sum_list (map batch_samples (ro_counted r))
    \<and> samples_sent (ro_stats r) \<le> samples_read (ro_stats r)
    \<and> (if pc_dry_run cfg then ro_delivered r = [] else mset (ro_delivered r) = mset (ro_counted r))"
  using assms(1)
proof cases
  case (completed p' sds' rerr' s)
  with assms have eqs: "sds' = sds" "rerr' = rerr" by auto
  let ?P = "run_params G sz cfg sds rerr"
  have inv: "inv_stream ?P s" "inv_counts ?P s"
    using reachable_inv [of ?P s] completed eqs by (auto simp: pipeline_inv_def)
  have sub: "mset (concat (map batch_stream (counted s)))
      \<subseteq># mset (concat (map series_stream (take (series_read (stats s)) sds)))"
    using inv(1) unfolding inv_stream_def emitted_def read_so_far_def
    by (simp add: batches_stream_mset) (metis (no_types, lifting) mset_subset_eq_add_left subset_mset.order_trans add.assoc)
  have del: "if pc_dry_run cfg then delivered s = [] else mset (delivered s) = mset (counted s)"
    using finished_delivered [of ?P s] completed eqs by (auto simp: run_params_def split: if_splits)
  then have "mset (concat (map batch_stream (delivered s))) \<subseteq># mset (concat (map series_stream (take (series_read (stats s)) sds)))"
    using sub delivered_stream_eq [of "delivered s" "counted s"] by (auto split: if_splits)
  moreover have "samples_sent (stats s) \<le> samples_read (stats s)"
    using inv(2) size_mset_mono [OF sub]
    by (auto simp: inv_counts_def samples_of_batches samples_of_series)
  ultimately show ?thesis using sub del inv(2) completed(1) by (auto simp: outcome_of_def inv_counts_def)
qed (use assms in simp)

theorem run_delivers_at_most_once_witness:
  "\<exists>r. run_pipeline first_error_group (\<lambda>t. 10 * length (ts_samples t)) (\<lambda>_ _. ([ex_series], None)) ex_pipeline_cfg r
    \<and> ro_delivered r = [ex_batch] \<and> batches_sent (ro_stats r) = 1
    \<and> samples_sent (ro_stats r) \<le> samples_read (ro_stats r)"
proof -
  from ex_outcome obtain r where r: "run_pipeline first_error_group (\<lambda>t. 10 * length (ts_samples t)) (\<lambda>_ _. ([ex_series], None)) ex_pipeline_cfg r"
    "ro_delivered r = [ex_batch]" by blast
  from run_delivers_at_most_once [OF r(1), of "()" "[ex_series]" None] r show ?thesis
    by (auto simp: ex_pipeline_cfg_def dest: mset_eq_length)
qed

text \<open>
  C10. No deadlock: in every reachable state in which some goroutine has not returned, some
  goroutine can act, without any help from the caller (no cancellation is needed), whatever
  has failed before.
\<close>

theorem run_never_deadlocks:
  assumes "errgroup (p_group P)" and "reachable P s" and "\<not> all_returned s"
  shows "\<exists>a. enabled P a s \<and> of_goroutine a"
  using reachable_inv [OF assms(2)] assms(1,3) by (intro pipeline_progress) (auto simp: pipeline_inv_def)

theorem run_never_deadlocks_witness:
  "\<not> all_returned (init_state ex_params) \<and> (\<exists>a. enabled ex_params a (init_state ex_params) \<and> of_goroutine a)"
proof -
  have n: "\<not> all_returned (init_state ex_params)" by (simp add: all_returned_def init_state_def)
  have "errgroup (p_group ex_params)" by (simp add: ex_params_def run_params_def feg.errgroup_axioms)
  from run_never_deadlocks [OF this reach_start n] n show ?thesis by blast
qed

lemma work_left_init: "work_left P (init_state P) = 4 + 2 * length (p_series P) + 4 * length (all_batches P) + num_writers P"
  by (simp add: work_left_def init_state_def phase_weight_def future_def all_batches_def batches_of_def
      writer_weight_def sum_list_replicate)

text \<open>
  C9. Termination under every schedule: no schedule is longer than a bound that depends only
  on the number of series, of batches and of writers, and every schedule can be continued to
  a state in which all goroutines have returned. With C10, \<^verbatim>\<open>g.Wait()\<close> always returns.
\<close>

theorem run_terminates:
  assumes "errgroup (p_group P)" and "run_schedule P as (init_state P) = Some s"
  shows "length as \<le> 4 + 2 * length (p_series P) + 4 * length (all_batches P) + num_writers P
    \<and> (\<exists>bs t. run_schedule P bs s = Some t \<and> all_returned t)"
proof -
  have gp: "grouped_pipeline P" using assms(1) by (simp add: grouped_pipeline_def)
  have p: "path (pipeline_step P) (init_state P) as s" using assms(2) by (simp add: run_schedule_path)
  show ?thesis
    using grouped_pipeline.path_bound [OF gp p] grouped_pipeline.can_finish [OF gp run_schedule_reachable [OF assms(2)]]
    by (simp add: work_left_init run_schedule_path)
qed

theorem run_terminates_witness:
  "\<exists>s. run_schedule ex_params ex_schedule (init_state ex_params) = Some s
    \<and> length ex_schedule \<le> 4 + 2 + 4 * length (all_batches ex_params) + 1"
proof -
  from ex_run obtain s where s: "run_schedule ex_params ex_schedule (init_state ex_params) = Some s" by blast
  have "errgroup (p_group ex_params)" by (simp add: ex_params_def run_params_def feg.errgroup_axioms)
  from run_terminates [OF this s] s show ?thesis by (auto simp: ex_caps)
qed

interpretation ex_grouped: grouped_pipeline ex_params
  by unfold_locales (simp_all add: ex_params_def run_params_def feg.wait_nil feg.wait_first feg.cancelled_iff)

text \<open>
  C11. What \<^verbatim>\<open>Run\<close> reports: the error it returns is a root cause, that is the error the read ended with, the
  caller's cancellation (as it is, or as the series set reports it), or an error that \<^verbatim>\<open>Send\<close> really returned; never the cancellation that the failure of
  one goroutine brings to the others. It returns nil only if neither the read nor any \<^verbatim>\<open>Send\<close> failed, and it
  does return nil if neither did and the caller did not cancel.
\<close>

theorem run_reports_root_cause:
  assumes "errgroup G" and "run_pipeline G sz read cfg r"
    and "pc_provider cfg = Some p" and "read (pipeline_reader_config cfg) p = (sds, rerr)"
  shows "(\<forall>e. ro_err r = Some e \<longrightarrow> rerr = Some e
        \<or> (\<exists>c. ro_ctx r = Done c \<and> (e = c \<or> (\<exists>x. e = wrapf ''iterating series set: '' x)))
        \<or> (\<exists>x \<in> set (ro_send_errs r). e = wrapf ''remote write: '' x))
    \<and> (ro_err r = None \<longrightarrow> rerr = None \<and> ro_send_errs r = [])
    \<and> (rerr = None \<and> ro_send_errs r = [] \<and> ro_ctx r = Live \<longrightarrow> ro_err r = None)"
  using assms(2)
proof cases
  case (completed p' sds' rerr' s)
  with assms have eqs: "sds' = sds" "rerr' = rerr" by auto
  let ?P = "run_params G sz cfg sds rerr"
  have gp: "grouped_pipeline ?P" using assms(1) by (simp add: grouped_pipeline_def run_params_def)
  have s: "reachable ?P s" "all_returned s" using completed eqs by simp_all
  have cause: "root_cause ?P s e" if "ro_err r = Some e" for e
    using grouped_pipeline.first_error_has_cause [OF gp s(1)] that completed(1)
    by (simp add: outcome_of_def errgroup.wait_Some_iff [OF assms(1)])
  have "rerr = None \<and> send_errs s = []" if "ro_err r = None"
    using that completed(1) s(2) reachable_inv [OF s(1)]
    by (simp add: outcome_of_def errgroup.wait_None_iff [OF assms(1)] pipeline_inv_def inv_clean_def all_returned_def)
  with cause completed(1) show ?thesis
    by (cases "ro_err r") (auto simp: outcome_of_def root_cause_def)
qed (use assms in simp)

theorem run_reports_root_cause_witness:
  "\<exists>r. run_pipeline first_error_group (\<lambda>t. 10 * length (ts_samples t)) (\<lambda>_ _. ([ex_series], None)) ex_pipeline_cfg r
    \<and> ro_err r = Some (wrapf ''remote write: '' (errors_new ''boom'')) \<and> ro_send_errs r \<noteq> []"
proof -
  let ?e = "errors_new ''boom''"
  have "\<exists>s. run_schedule ex_params (take 7 ex_schedule @ [WriterFail 0 ?e]) (init_state ex_params) = Some s
      \<and> all_returned s \<and> g_errs s = [wrapf ''remote write: '' ?e] \<and> parent_ctx s = Live"
    by (simp add: ex_schedule_def init_state_def ex_caps ex_step series_cap_def return_err_def in_hand_def is_sending_def
        is_counting_def send_batch_def ex_batch_def all_returned_def Let_def)
  then obtain s where s: "run_schedule ex_params (take 7 ex_schedule @ [WriterFail 0 ?e]) (init_state ex_params) = Some s"
    "all_returned s" "g_errs s = [wrapf ''remote write: '' ?e]" "parent_ctx s = Live" by blast
  let ?r = "outcome_of first_error_group s"
  have run: "run_pipeline first_error_group (\<lambda>t. 10 * length (ts_samples t)) (\<lambda>_ _. ([ex_series], None)) ex_pipeline_cfg ?r"
    by (rule run_pipeline.completed [where p = "()"])
      (use run_schedule_reachable [OF s(1)] s(2) in \<open>simp_all add: ex_params_def ex_pipeline_cfg_def\<close>)
  have err: "ro_err ?r = Some (wrapf ''remote write: '' ?e)" "ro_ctx ?r = Live"
    using s(3,4) by (simp_all add: outcome_of_def feg.wait_first)
  with run_reports_root_cause [OF feg.errgroup_axioms run, of "()" "[ex_series]" None] have "ro_send_errs ?r \<noteq> []"
    by (auto simp: ex_pipeline_cfg_def)
  with run err(1) show ?thesis by blast
qed

text \<open>
  C34. The progress function is called once per series read, in order, with the cumulative
  counts of series and samples, whatever the outcome.
\<close>

theorem run_progress_is_cumulative:
  assumes "run_pipeline G sz read cfg r"
    and "pc_provider cfg = Some p" and "read (pipeline_reader_config cfg) p = (sds, rerr)"
  shows "ro_progress r = map (\<lambda>k. (k, sample_total (take k sds))) [1..<Suc (series_read (ro_stats r))]
    \<and> series_read (ro_stats r) \<le> length sds
    \<and> samples_read (ro_stats r) = sample_total (take (series_read (ro_stats r)) sds)"
  using assms(1)
proof cases
  case (completed p' sds' rerr' s)
  with assms have "inv_counts (run_params G sz cfg sds rerr) s"
    using reachable_inv by (fastforce simp: pipeline_inv_def)
  then obtain consumed where c: "sds = consumed @ series_ch s @ rd_todo s"
    "series_read (stats s) = length consumed" "samples_read (stats s) = sample_total consumed"
    "progress_log s = progress_of consumed" by (auto simp: inv_counts_def)
  have "map (\<lambda>k. (k, sample_total (take k sds))) [1..<Suc (length consumed)] = progress_of consumed"
    unfolding progress_of_def c(1) by (rule map_cong) auto
  with c show ?thesis by (simp add: completed(1) outcome_of_def)
qed (use assms in simp)

theorem run_progress_is_cumulative_witness:
  "\<exists>r. run_pipeline first_error_group (\<lambda>t. 10 * length (ts_samples t)) (\<lambda>_ _. ([ex_series], None)) ex_pipeline_cfg r
    \<and> series_read (ro_stats r) \<le> 1
    \<and> ro_progress r = map (\<lambda>k. (k, sample_total (take k [ex_series]))) [1..<Suc (series_read (ro_stats r))]"
proof -
  from ex_outcome obtain r where r: "run_pipeline first_error_group (\<lambda>t. 10 * length (ts_samples t)) (\<lambda>_ _. ([ex_series], None)) ex_pipeline_cfg r"
    by blast
  from run_progress_is_cumulative [OF r, of "()" "[ex_series]" None] r show ?thesis
    by (auto simp: ex_pipeline_cfg_def)
qed

end
