(* ===== verification/Handler.thy ===== *)
theory Handler
  imports Task History Progress_Correct Pipeline_Correct
begin

text \<open>
  The worker's task handler (\<^verbatim>\<open>internal/queue/handler.go\<close>): \<^verbatim>\<open>ProcessTask\<close> parses the payload, marks
  the task active, opens a provider, runs the pipeline with a throttled progress function, and
  records the outcome in Redis and in the history log. What happens around it is in the
  environment: the outcome of \<^verbatim>\<open>migration.Run\<close> on the configuration it builds (any outcome the
  pipeline allows), the context at each call (it may be done from some call on), the clock.
\<close>

section \<open>Task ids\<close>

definition hex_encode :: "string \<Rightarrow> string" where
  "hex_encode bs = concat (map (\<lambda>b. [hex_char (of_char b div 16), hex_char (of_char b mod 16)]) bs)"

definition task_id_from_task :: "string option \<Rightarrow> string \<Rightarrow> string" where
  "task_id_from_task result_writer rand = (case result_writer of Some i \<Rightarrow> i | None \<Rightarrow> hex_encode rand)"

section \<open>The environment of a call\<close>

text \<open>
  \<open>env_open\<close> is \<^verbatim>\<open>h.OpenProvider\<close> (possibly nil); \<open>env_run\<close> gives the outcome of \<^verbatim>\<open>Run\<close>; the contexts are
  those at the start, after the attempt to open the provider, at the calls of the progress function and after the run.
\<close>

record ('w, 'h, 'p) env =
  env_redis :: "'w redis_client"
  env_history :: "'h history_logger"
  env_open :: "(string \<Rightarrow> goerr + 'p) option"
  env_run :: "'p pipeline_config \<Rightarrow> run_outcome"
  env_fmt_time :: "gotime \<Rightarrow> string"
  env_started_at :: gotime
  env_active_at :: gotime
  env_ended_at :: gotime
  env_ctx_start :: ctx
  env_ctx_open :: ctx
  env_ctx_progress :: "nat \<Rightarrow> ctx"
  env_ctx_end :: ctx

record ('w, 'h) world =
  w_redis :: 'w
  w_history :: 'h
  w_closed :: nat

definition store_update :: "('w, 'h, 'p) env \<Rightarrow> ctx \<Rightarrow> string \<Rightarrow> fields \<Rightarrow> ('w, 'h) world \<Rightarrow> ('w, 'h) world" where
  "store_update E c i fs w = w\<lparr>w_redis := snd (progress_update (env_redis E) c i fs (w_redis w))\<rparr>"

definition store_history :: "('w, 'h, 'p) env \<Rightarrow> history_entry \<Rightarrow> ('w, 'h) world \<Rightarrow> ('w, 'h) world" where
  "store_history E e w = w\<lparr>w_history := snd (history_append (env_fmt_time E) (env_history E) e (w_history w))\<rparr>"

definition close_provider :: "('w, 'h) world \<Rightarrow> ('w, 'h) world" where
  "close_provider w = w\<lparr>w_closed := w_closed w + 1\<rparr>"

section \<open>The throttled progress function\<close>

fun report_progress :: "('w, 'h, 'p) env \<Rightarrow> string \<Rightarrow> nat \<Rightarrow> int \<Rightarrow> (nat \<times> nat) list \<Rightarrow> ('w, 'h) world \<Rightarrow> ('w, 'h) world" where
  "report_progress E i n lastReported [] w = w"
| "report_progress E i n lastReported ((seriesRead, samplesRead) # calls) w =
     (if int seriesRead - lastReported < 100 \<and> seriesRead \<noteq> 0
      then report_progress E i (Suc n) lastReported calls w
      else report_progress E i (Suc n) (int seriesRead) calls
             (store_update E (env_ctx_progress E n) i
                [(''series_read'', itoa (int seriesRead)), (''samples_read'', itoa (int samplesRead))] w))"

section \<open>ProcessTask\<close>

definition stats_fields :: "pipeline_stats \<Rightarrow> fields" where
  "stats_fields st = [(''series_read'', itoa (int (series_read st))), (''samples_read'', itoa (int (samples_read st))),
     (''samples_sent'', itoa (int (samples_sent st))), (''batches_sent'', itoa (int (batches_sent st)))]"

definition outcome_entry :: "('w, 'h, 'p) env \<Rightarrow> string \<Rightarrow> string \<Rightarrow> string \<Rightarrow> pipeline_stats \<Rightarrow> string \<Rightarrow> history_entry" where
  "outcome_entry E i pid state st err =
     \<lparr>he_task_id = i, he_project_id = pid, he_state = state, he_series_read = int (series_read st),
      he_samples_read = int (samples_read st), he_samples_sent = int (samples_sent st),
      he_batches_sent = int (batches_sent st), he_started_at = env_started_at E, he_ended_at = env_ended_at E,
      he_error = err\<rparr>"

definition task_config :: "migrate_payload \<Rightarrow> 'p \<Rightarrow> 'p pipeline_config" where
  "task_config p provider =
     \<lparr>pc_provider = Some provider, pc_tenant_id = mp_project_id p, pc_cortex_url = mp_cortex_url p,
      pc_max_batch_bytes = mp_max_batch_bytes p, pc_writer_concurrency = mp_writer_concurrency p,
      pc_dry_run = mp_dry_run p, pc_min_time = 0, pc_max_time = 0\<rparr>"

definition finish_task :: "('w, 'h, 'p) env \<Rightarrow> string \<Rightarrow> string \<Rightarrow> run_outcome \<Rightarrow> ('w, 'h) world \<Rightarrow> goerr option \<times> ('w, 'h) world" where
  "finish_task E i pid ro w = (case ro_err ro of
     Some e \<Rightarrow>
       (let w1 = store_update E (env_ctx_end E) i ([(''state'', ''failed''), (''error'', err_text e)] @ stats_fields (ro_stats ro)) w;
            w2 = store_history E (outcome_entry E i pid ''failed'' (ro_stats ro) (err_text e)) w1
        in (Some (wrapf (''migration '' @ pid @ '': '') e), w2))
   | None \<Rightarrow>
       (let w1 = store_update E (env_ctx_end E) i ([(''state'', ''completed'')] @ stats_fields (ro_stats ro)) w;
            w2 = store_history E (outcome_entry E i pid ''completed'' (ro_stats ro) '''') w1
        in (None, w2)))"

definition process_task ::
  "('w, 'h, 'p) env \<Rightarrow> string option \<Rightarrow> string \<Rightarrow> asynq_task \<Rightarrow> ('w, 'h) world \<Rightarrow> goerr option \<times> ('w, 'h) world" where
  "process_task E rw rand task w = (case parse_migrate_payload task of
     Inl e \<Rightarrow> (Some (wrapf ''parse payload: '' e), w)
   | Inr p \<Rightarrow>
       (let i = task_id_from_task rw rand;
            w1 = store_update E (env_ctx_start E) i
                   [(''project_id'', mp_project_id p), (''state'', ''active''),
                    (''started_at'', env_fmt_time E (env_active_at E))] w
        in case env_open E of
             None \<Rightarrow> (Some (errors_new ''handler: OpenProvider is nil''), w1)
           | Some open \<Rightarrow>
               (case open (mp_tsdb_path p) of
                  Inl e \<Rightarrow>
                    (let w2 = store_update E (env_ctx_open E) i [(''state'', ''failed''), (''error'', err_text e)] w1;
                         w3 = store_history E (outcome_entry E i (mp_project_id p) ''failed'' empty_stats (err_text e)) w2
                     in (Some (wrapf (''open tsdb '' @ mp_project_id p @ '': '') e), w3))
                | Inr provider \<Rightarrow>
                    (let ro = env_run E (task_config p provider);
                         w2 = report_progress E i 0 0 (ro_progress ro) w1;
                         (res, w3) = finish_task E i (mp_project_id p) ro w2
                     in (res, close_provider w3)))))"

section \<open>Facts\<close>

lemma world_simps [simp]:
  "w_history (store_update E c i fs w) = w_history w" "w_closed (store_update E c i fs w) = w_closed w"
  "w_redis (store_history E e w) = w_redis w" "w_closed (store_history E e w) = w_closed w"
  "w_redis (close_provider w) = w_redis w" "w_history (close_provider w) = w_history w"
  "w_closed (close_provider w) = Suc (w_closed w)"
  by (simp_all add: store_update_def store_history_def close_provider_def)

lemma report_progress_world [simp]:
  "w_history (report_progress E i n l calls w) = w_history w" "w_closed (report_progress E i n l calls w) = w_closed w"
  by (induction E i n l calls w rule: report_progress.induct) simp_all

lemma finish_task_closed [simp]: "w_closed (snd (finish_task E i pid ro w)) = w_closed w"
  by (simp add: finish_task_def Let_def split: option.splits)

lemma entry_update_append: "entry_update i gs (entry_update i fs X) = entry_update i (gs @ fs) X"
  by (auto simp: entry_update_def fun_eq_iff map_add_def split: option.splits)

text \<open>A server that is up and stays up takes every write under a live context.\<close>

definition hset_up :: "'w redis_client \<Rightarrow> ('w \<Rightarrow> bool) \<Rightarrow> bool" where
  "hset_up r up \<longleftrightarrow> (\<forall>k fs w. up w \<longrightarrow> (\<exists>w'. rd_hset r Live k fs w = (Inr (), w') \<and> up w'))"

lemma mem_hset_up: "hset_up mem_client mr_up"
  by (simp add: hset_up_def mem_client_def mem_hset_def mem_fault_def)

lemma store_update_up:
  assumes "redis_store (env_redis E) view" "hset_up (env_redis E) up" "up (w_redis w)"
  shows "up (w_redis (store_update E Live i fs w))"
    "entries view (w_redis (store_update E Live i fs w)) = entry_update i fs (entries view (w_redis w))"
proof -
  obtain w' where h: "rd_hset (env_redis E) Live (progress_key i) fs (w_redis w) = (Inr (), w')" "up w'"
    using assms(2,3) unfolding hset_up_def by blast
  show "up (w_redis (store_update E Live i fs w))"
    using h assms(3) by (simp add: store_update_def progress_update_def)
  have "progress_update (env_redis E) Live i fs (w_redis w) = (Inr (), w_redis (store_update E Live i fs w))"
    using h by (simp add: store_update_def progress_update_def)
  from progress_contract.update_ok [OF redis_store.progress_store_contract [OF assms(1)] this]
  show "entries view (w_redis (store_update E Live i fs w)) = entry_update i fs (entries view (w_redis w))" .
qed

lemma store_update_other:
  assumes "redis_store (env_redis E) view" "j \<noteq> i"
  shows "entries view (w_redis (store_update E c i fs w)) j = entries view (w_redis w) j"
  using progress_contract.update_other [OF redis_store.progress_store_contract [OF assms(1)] _ assms(2),
      of c fs "w_redis w" "fst (progress_update (env_redis E) c i fs (w_redis w))"]
  by (simp add: store_update_def)

lemma report_progress_other:
  assumes "redis_store (env_redis E) view" "j \<noteq> i"
  shows "entries view (w_redis (report_progress E i n l calls w)) j = entries view (w_redis w) j"
  by (induction E \<equiv> E i \<equiv> i n l calls w rule: report_progress.induct)
    (simp_all add: store_update_other [OF assms])

lemma report_progress_up:
  assumes st: "redis_store (env_redis E) view" "hset_up (env_redis E) up" and up: "up (w_redis w)"
    and live: "\<And>n. env_ctx_progress E n = Live"
  shows "up (w_redis (report_progress E i n l calls w))
    \<and> (\<exists>fs. fst ` set fs \<subseteq> {''series_read'', ''samples_read''}
         \<and> entries view (w_redis (report_progress E i n l calls w)) = entry_update i fs (entries view (w_redis w)))"
  using up
proof (induction calls arbitrary: n l w)
  case Nil
  then show ?case by (auto simp: entry_update_def intro!: exI [of _ "[]"])
next
  case (Cons c calls)
  obtain a b where c: "c = (a, b)" by fastforce
  show ?case
  proof (cases "int a - l < 100 \<and> a \<noteq> 0")
    case True
    with Cons.IH [OF Cons.prems, of "Suc n" l] show ?thesis by (simp add: c)
  next
    case False
    let ?fs = "[(''series_read'', itoa (int a)), (''samples_read'', itoa (int b))]"
    let ?w = "store_update E (env_ctx_progress E n) i ?fs w"
    note u = store_update_up [OF st Cons.prems, of i ?fs]
    from Cons.IH [of ?w "Suc n" "int a"] u(1) obtain fs where fs:
      "up (w_redis (report_progress E i (Suc n) (int a) calls ?w))" "fst ` set fs \<subseteq> {''series_read'', ''samples_read''}"
      "entries view (w_redis (report_progress E i (Suc n) (int a) calls ?w)) = entry_update i fs (entries view (w_redis ?w))"
      by (auto simp: live)
    have "fst ` set (fs @ ?fs) \<subseteq> {''series_read'', ''samples_read''}" using fs(2) by (simp add: image_Un)
    moreover have "entries view (w_redis (report_progress E i (Suc n) (int a) calls ?w)) = entry_update i (fs @ ?fs) (entries view (w_redis w))"
      using fs(3) u(2) by (simp add: live entry_update_append)
    moreover have "report_progress E i n l (c # calls) w = report_progress E i (Suc n) (int a) calls ?w"
      using False by (auto simp: c)
    ultimately show ?thesis using fs(1) by metis
  qed
qed

section \<open>A concrete environment\<close>

definition ex_payload :: migrate_payload where
  "ex_payload = zero_payload\<lparr>mp_project_id := ''p1'', mp_tsdb_path := ''/data''\<rparr>"

definition ex_ro :: "goerr option \<Rightarrow> run_outcome" where
  "ex_ro e = \<lparr>ro_stats = \<lparr>series_read = 150, samples_read = 300, batches_sent = 2, samples_sent = 300\<rparr>, ro_err = e,
     ro_progress = map (\<lambda>k. (k, 2 * k)) [1..<151], ro_delivered = [], ro_counted = [], ro_send_errs = [], ro_ctx = Live\<rparr>"

definition ex_env :: "ctx \<Rightarrow> goerr option \<Rightarrow> (mem_redis, string, unit) env" where
  "ex_env c e = \<lparr>env_redis = mem_client, env_history = Some file_writer, env_open = Some (\<lambda>_. Inr ()), env_run = (\<lambda>_. ex_ro e),
     env_fmt_time = (\<lambda>_. ''2026-01-01T00:00:00Z''), env_started_at = 0, env_active_at = 1, env_ended_at = 2,
     env_ctx_start = Live, env_ctx_open = Live, env_ctx_progress = (\<lambda>_. Live), env_ctx_end = c\<rparr>"

definition ex_world :: "(mem_redis, string) world" where
  "ex_world = \<lparr>w_redis = \<lparr>mr_data = [(''migrate:progress:a'', [(''state'', ''failed''), (''error'', ''boom'')])],
     mr_up = True, mr_rehash = False\<rparr>, w_history = [], w_closed = 0\<rparr>"

lemma ex_parse: "parse_migrate_payload (new_migrate_task ex_payload) = Inr ex_payload"
proof -
  have "payload_ok ex_payload"
    by (simp add: payload_ok_def ex_payload_def zero_payload_def wire_eval)
  then have "unmarshal_payload (print_json (payload_json ex_payload)) = Inr ex_payload" by (rule unmarshal_marshal)
  then show ?thesis by (simp add: parse_migrate_payload_def new_migrate_task_def ex_payload_def)
qed

lemma ex_env_simps [simp]:
  "env_redis (ex_env c e) = mem_client" "env_ctx_start (ex_env c e) = Live" "env_ctx_open (ex_env c e) = Live" "env_ctx_end (ex_env c e) = c"
  "env_open (ex_env c e) = Some (\<lambda>_. Inr ())" "env_run (ex_env c e) cfg = ex_ro e" "env_ctx_progress (ex_env c e) n = Live"
  by (simp_all add: ex_env_def)

lemma ex_world_up [simp]: "mr_up (w_redis ex_world)"
  by (simp add: ex_world_def)

lemma ex_env_result: "\<exists>res w'. process_task (ex_env c e) (Some ''a'') [] (new_migrate_task ex_payload) ex_world = (res, w') \<and> (res = None \<longleftrightarrow> e = None)"
  by (auto simp: process_task_def ex_parse finish_task_def Let_def ex_ro_def split: option.splits)

section \<open>Properties of the handler\<close>

text \<open>
  \<^verbatim>\<open>ProcessTask\<close> returns nil exactly when the payload parses, the provider opens and the pipeline
  returns nil: failures of Redis and of the history log never make a task fail or succeed.
\<close>

theorem process_task_nil_iff:
  "fst (process_task E rw rand task w) = None \<longleftrightarrow>
     (\<exists>p open provider. parse_migrate_payload task = Inr p \<and> env_open E = Some open
        \<and> open (mp_tsdb_path p) = Inr provider \<and> ro_err (env_run E (task_config p provider)) = None)"
  by (auto simp: process_task_def finish_task_def Let_def split: sum.splits option.splits)

text \<open>
  C24. A task writes its own progress entry only: whatever happens, the entries of the other tasks
  are untouched.
\<close>

theorem process_task_isolated:
  assumes "redis_store (env_redis E) view" "j \<noteq> task_id_from_task rw rand"
  shows "entries view (w_redis (snd (process_task E rw rand task w))) j = entries view (w_redis w) j"
  using store_update_other [OF assms] report_progress_other [OF assms]
  by (simp add: process_task_def finish_task_def Let_def split: sum.splits option.splits)

theorem process_task_isolated_witness:
  "redis_store mem_client mem_view
   \<and> entries mem_view (w_redis (snd (process_task (ex_env Live None) (Some ''b'') [] (new_migrate_task ex_payload) ex_world))) ''a''
     = [''state'' \<mapsto> ''failed'', ''error'' \<mapsto> ''boom'']"
  using process_task_isolated [of "ex_env Live None" mem_view "''a''" "Some ''b''" "[]" "new_migrate_task ex_payload" ex_world]
    mem.redis_store_axioms
  by (auto simp: task_id_from_task_def entries_def mem_view_def progress_key_def progress_prefix_def ex_world_def fun_eq_iff)

lemma throttle_arith:
  assumes "1 \<le> (a::nat)"
  shows "(int a - int (100 * ((a - 1) div 100)) < 100 \<and> a \<noteq> 0) \<longleftrightarrow> a mod 100 \<noteq> 0"
    "a mod 100 \<noteq> 0 \<Longrightarrow> (a - 1) div 100 = a div 100" "a mod 100 = 0 \<Longrightarrow> 100 * (a div 100) = a"
proof -
  define q m where "q = (a - 1) div 100" and "m = (a - 1) mod 100"
  have m: "m < 100" by (simp add: m_def)
  have "a - 1 = 100 * q + m" by (simp add: q_def m_def)
  with assms have a: "a = 100 * q + Suc m" by simp
  have md: "a mod 100 = Suc m mod 100" and dv: "a div 100 = q + Suc m div 100" by (simp_all add: a)
  show "(int a - int (100 * ((a - 1) div 100)) < 100 \<and> a \<noteq> 0) \<longleftrightarrow> a mod 100 \<noteq> 0"
    unfolding q_def [symmetric] using a m md by (cases "m = 99") auto
  show "a mod 100 \<noteq> 0 \<Longrightarrow> (a - 1) div 100 = a div 100"
    unfolding q_def [symmetric] using m md dv by (cases "m = 99") auto
  show "a mod 100 = 0 \<Longrightarrow> 100 * (a div 100) = a" by (metis add.right_neutral mult_div_mod_eq)
qed

definition report_at :: "('w, 'h, 'p) env \<Rightarrow> string \<Rightarrow> ('w, 'h) world \<Rightarrow> nat \<times> nat \<times> nat \<Rightarrow> ('w, 'h) world" where
  "report_at E i w c = store_update E (env_ctx_progress E (fst c)) i
     [(''series_read'', itoa (int (fst (snd c)))), (''samples_read'', itoa (int (snd (snd c))))] w"

lemma report_progress_from:
  assumes "1 \<le> a"
  shows "report_progress E i n (int (100 * ((a - 1) div 100))) (map (\<lambda>k. (k, f k)) [a..<b]) w =
    foldl (report_at E i) w (filter (\<lambda>c. fst (snd c) mod 100 = 0) (enumerate n (map (\<lambda>k. (k, f k)) [a..<b])))"
  using assms
proof (induction "b - a" arbitrary: a n w)
  case (Suc x)
  have up: "[a..<b] = a # [Suc a..<b]" using Suc(2) by (simp add: upt_conv_Cons)
  have x: "x = b - Suc a" using Suc(2) by simp
  note ih = Suc(1) [OF x, of "Suc n"] and ar = throttle_arith [OF Suc.prems]
  show ?case
  proof (cases "a mod 100 = 0")
    case True
    with ih ar(1,3) Suc.prems show ?thesis by (simp add: up report_at_def)
  next
    case False
    with ih ar(1,2) Suc.prems show ?thesis by (simp add: up)
  qed
qed simp

text \<open>
  C32. The progress function reaches Redis exactly at every hundredth series, on the cumulative
  calls the pipeline makes: what is written after \<open>n\<close> series is the sequence of the calls at 100,
  200, and so on.
\<close>

theorem progress_throttled_to_hundreds:
  "report_progress E i 0 0 (map (\<lambda>k. (k, f k)) [1..<Suc N]) w =
   foldl (report_at E i) w (filter (\<lambda>c. fst (snd c) mod 100 = 0) (enumerate 0 (map (\<lambda>k. (k, f k)) [1..<Suc N])))"
  using report_progress_from [of 1 E i 0 f "Suc N" w] by simp

definition stats_fit :: "pipeline_stats \<Rightarrow> bool" where
  "stats_fit st \<longleftrightarrow> is_int64 (int (series_read st)) \<and> is_int64 (int (samples_read st))
     \<and> is_int64 (int (samples_sent st)) \<and> is_int64 (int (batches_sent st))"

definition start_fields :: "('w, 'h, 'p) env \<Rightarrow> migrate_payload \<Rightarrow> fields" where
  "start_fields E p = [(''project_id'', mp_project_id p), (''state'', ''active''), (''started_at'', env_fmt_time E (env_active_at E))]"

definition end_fields :: "run_outcome \<Rightarrow> fields" where
  "end_fields ro = (case ro_err ro of None \<Rightarrow> [(''state'', ''completed'')] @ stats_fields (ro_stats ro)
     | Some e \<Rightarrow> [(''state'', ''failed''), (''error'', err_text e)] @ stats_fields (ro_stats ro))"

definition live_env :: "('w, 'h, 'p) env \<Rightarrow> bool" where
  "live_env E \<longleftrightarrow> env_ctx_start E = Live \<and> env_ctx_open E = Live \<and> (\<forall>n. env_ctx_progress E n = Live) \<and> env_ctx_end E = Live"

lemma process_task_entry_run:
  assumes st: "redis_store (env_redis E) view" "hset_up (env_redis E) up" "up (w_redis w)" and live: "live_env E"
    and p: "parse_migrate_payload task = Inr p" "env_open E = Some open" "open (mp_tsdb_path p) = Inr provider"
    and run: "process_task E rw rand task w = (res, w')"
  shows "\<exists>fs. fst ` set fs \<subseteq> {''series_read'', ''samples_read''} \<and>
    entries view (w_redis w') = entry_update (task_id_from_task rw rand)
      (end_fields (env_run E (task_config p provider)) @ fs @ start_fields E p) (entries view (w_redis w))"
    "res = None \<longleftrightarrow> ro_err (env_run E (task_config p provider)) = None"
proof -
  let ?i = "task_id_from_task rw rand" and ?ro = "env_run E (task_config p provider)"
  let ?w1 = "store_update E Live ?i (start_fields E p) w"
  let ?w2 = "report_progress E ?i 0 0 (ro_progress ?ro) ?w1"
  note u1 = store_update_up [OF st, of ?i "start_fields E p"]
  obtain fs where fs: "up (w_redis ?w2)" "fst ` set fs \<subseteq> {''series_read'', ''samples_read''}"
    "entries view (w_redis ?w2) = entry_update ?i fs (entries view (w_redis ?w1))"
    using report_progress_up [OF st(1,2) u1(1)] live unfolding live_env_def by blast
  note u2 = store_update_up [OF st(1,2) fs(1), of ?i "end_fields ?ro"]
  have res: "w_redis w' = w_redis (store_update E Live ?i (end_fields ?ro) ?w2)" "res = None \<longleftrightarrow> ro_err ?ro = None"
    using run live by (auto simp: process_task_def p finish_task_def Let_def end_fields_def start_fields_def live_env_def
        split: option.splits)
  show "res = None \<longleftrightarrow> ro_err ?ro = None" by (rule res(2))
  show "\<exists>fs. fst ` set fs \<subseteq> {''series_read'', ''samples_read''} \<and>
    entries view (w_redis w') = entry_update ?i (end_fields ?ro @ fs @ start_fields E p) (entries view (w_redis w))"
    using fs(2,3) u1(2) u2(2) res(1) by (intro exI [of _ fs]) (simp add: entry_update_append)
qed

lemma process_task_up:
  assumes st: "redis_store (env_redis E) view" "hset_up (env_redis E) up" "up (w_redis w)" and live: "live_env E"
    and p: "parse_migrate_payload task = Inr p" "env_open E = Some open" "open (mp_tsdb_path p) = Inr provider"
    and run: "process_task E rw rand task w = (res, w')"
  shows "up (w_redis w')"
proof -
  let ?i = "task_id_from_task rw rand" and ?ro = "env_run E (task_config p provider)"
  have "up (w_redis (report_progress E ?i 0 0 (ro_progress ?ro) (store_update E Live ?i (start_fields E p) w)))"
    using report_progress_up [OF st(1,2) store_update_up(1) [OF st]] live unfolding live_env_def by blast
  from store_update_up(1) [OF st(1,2) this, of ?i "end_fields ?ro"] show ?thesis
    using run live by (auto simp: process_task_def p finish_task_def Let_def end_fields_def start_fields_def live_env_def
        split: option.splits)
qed

lemma end_fields_get:
  "map_of (end_fields ro @ xs) ''state'' = Some (if ro_err ro = None then ''completed'' else ''failed'')"
  "map_of (end_fields ro @ xs) ''series_read'' = Some (itoa (int (series_read (ro_stats ro))))"
  "map_of (end_fields ro @ xs) ''samples_read'' = Some (itoa (int (samples_read (ro_stats ro))))"
  "map_of (end_fields ro @ xs) ''samples_sent'' = Some (itoa (int (samples_sent (ro_stats ro))))"
  "map_of (end_fields ro @ xs) ''batches_sent'' = Some (itoa (int (batches_sent (ro_stats ro))))"
  "ro_err ro = Some e \<Longrightarrow> map_of (end_fields ro @ xs) ''error'' = Some (err_text e)"
  "ro_err ro = None \<Longrightarrow> map_of (end_fields ro @ xs) ''error'' = map_of xs ''error''"
  "map_of (end_fields ro @ xs) ''project_id'' = map_of xs ''project_id''"
  by (auto simp: end_fields_def stats_fields_def split: option.splits)

lemma progress_only_counters:
  "fst ` set fs \<subseteq> {''series_read'', ''samples_read''} \<Longrightarrow> k \<noteq> ''series_read'' \<Longrightarrow> k \<noteq> ''samples_read'' \<Longrightarrow>
     map_of (fs @ xs) k = map_of xs k"
  by (induction fs) auto

lemma store_update_field:
  assumes "redis_store (env_redis E) view" "k \<notin> fst ` set fs"
  shows "entries view (w_redis (store_update E c i fs w)) j k = entries view (w_redis w) j k"
proof -
  note con = redis_store.progress_store_contract [OF assms(1)]
  have none: "map_of fs k = None" using assms(2) by (simp add: map_of_eq_None_iff)
  obtain x w' where u: "progress_update (env_redis E) c i fs (w_redis w) = (x, w')" by fastforce
  have "entries view w' = entries view (w_redis w) \<or> entries view w' = entry_update i fs (entries view (w_redis w))"
    using progress_contract.update_ok [OF con, of c i fs "w_redis w" _ w'] progress_contract.update_err [OF con, of c i fs "w_redis w" _ w'] u
    by (cases x) auto
  with u none show ?thesis by (auto simp: store_update_def entry_update_def map_add_def)
qed

lemma report_progress_field:
  assumes "redis_store (env_redis E) view" "k \<noteq> ''series_read''" "k \<noteq> ''samples_read''"
  shows "entries view (w_redis (report_progress E i n l calls w)) j k = entries view (w_redis w) j k"
  using assms by (induction E i n l calls w rule: report_progress.induct) (simp_all add: store_update_field)

lemma progress_view_fields:
  assumes "t = progress_view pt i m" "m \<noteq> Map.empty"
  shows "tp_project_id t = str_of (m ''project_id'')" "tp_state t = str_of (m ''state'')"
    "tp_error t = str_of (m ''error'')" "tp_series_read t = atoi_val (str_of (m ''series_read''))"
    "tp_samples_read t = atoi_val (str_of (m ''samples_read''))" "tp_samples_sent t = atoi_val (str_of (m ''samples_sent''))"
    "tp_batches_sent t = atoi_val (str_of (m ''batches_sent''))"
  using assms by (simp_all add: progress_view_def)

text \<open>The two ends of a task: the provider cannot be opened, or the pipeline has run.\<close>

lemma open_failure_observable:
  assumes "redis_store (env_redis E) view" "hset_up (env_redis E) up" "up (w_redis w)" "live_env E"
    and "parse_migrate_payload task = Inr p" "env_open E = Some open" "open (mp_tsdb_path p) = Inl e"
    and "process_task E rw rand task w = (res, w')"
    and "t = progress_view pt (task_id_from_task rw rand) (entries view (w_redis w') (task_id_from_task rw rand))"
  shows "res \<noteq> None \<and> tp_project_id t = mp_project_id p \<and> tp_state t = ''failed'' \<and> tp_error t = err_text e"
proof -
  let ?i = "task_id_from_task rw rand" and ?fail = "[(''state'', ''failed''), (''error'', err_text e)]"
  note u1 = store_update_up [OF assms(1-3), of ?i "start_fields E p"]
  note u2 = store_update_up [OF assms(1,2) u1(1), of ?i ?fail]
  have run: "res \<noteq> None" "w_redis w' = w_redis (store_update E Live ?i ?fail (store_update E Live ?i (start_fields E p) w))"
    using assms(4-8) by (auto simp: process_task_def Let_def live_env_def start_fields_def)
  define m where "m = entries view (w_redis w) ?i ++ map_of (?fail @ start_fields E p)"
  have get: "m ''project_id'' = Some (mp_project_id p)" "m ''state'' = Some ''failed''" "m ''error'' = Some (err_text e)"
    by (simp_all add: m_def start_fields_def map_add_def)
  have "entries view (w_redis w') = entry_update ?i (?fail @ start_fields E p) (entries view (w_redis w))"
    by (simp only: run(2) u1(2) u2(2) entry_update_append)
  then have "entries view (w_redis w') ?i = m" by (simp only: m_def entry_update_def) simp
  then have t: "t = progress_view pt ?i m" by (simp only: assms(9))
  have ne: "m \<noteq> Map.empty" using get(1) by auto
  show ?thesis using run(1) get by (simp add: progress_view_fields [OF t ne])
qed

lemma run_end_observable:
  assumes "redis_store (env_redis E) view" "hset_up (env_redis E) up" "up (w_redis w)" "live_env E"
    and "parse_migrate_payload task = Inr p" "env_open E = Some open" "open (mp_tsdb_path p) = Inr provider"
    and "process_task E rw rand task w = (res, w')"
    and "ro = env_run E (task_config p provider)" "stats_fit (ro_stats ro)"
    and "t = progress_view pt (task_id_from_task rw rand) (entries view (w_redis w') (task_id_from_task rw rand))"
  shows "(res = None \<longleftrightarrow> ro_err ro = None) \<and> tp_project_id t = mp_project_id p
    \<and> tp_state t = (if ro_err ro = None then ''completed'' else ''failed'')
    \<and> tp_error t = (case ro_err ro of Some e \<Rightarrow> err_text e
        | None \<Rightarrow> str_of (entries view (w_redis w) (task_id_from_task rw rand) ''error''))
    \<and> tp_series_read t = int (series_read (ro_stats ro)) \<and> tp_samples_read t = int (samples_read (ro_stats ro))
    \<and> tp_samples_sent t = int (samples_sent (ro_stats ro)) \<and> tp_batches_sent t = int (batches_sent (ro_stats ro))"
proof -
  let ?i = "task_id_from_task rw rand"
  obtain fs where fs: "fst ` set fs \<subseteq> {''series_read'', ''samples_read''}"
    "entries view (w_redis w') = entry_update ?i (end_fields ro @ fs @ start_fields E p) (entries view (w_redis w))"
    and res: "res = None \<longleftrightarrow> ro_err ro = None"
    using process_task_entry_run [OF assms(1-8), folded assms(9)] by auto
  define m where "m = entries view (w_redis w) ?i ++ map_of (end_fields ro @ fs @ start_fields E p)"
  have m: "m k = Some v" if "map_of (end_fields ro @ fs @ start_fields E p) k = Some v" for k v
    using that by (simp add: m_def map_add_def)
  have "map_of (end_fields ro @ fs @ start_fields E p) ''project_id'' = Some (mp_project_id p)"
    using progress_only_counters [OF fs(1), of "''project_id''" "start_fields E p"]
    by (simp only: end_fields_get) (simp add: start_fields_def)
  note get = m [OF this] end_fields_get(1-5) [THEN m]
  have "map_of (end_fields ro @ fs @ start_fields E p) ''error'' = None" if "ro_err ro = None"
    using progress_only_counters [OF fs(1), of "''error''" "start_fields E p"] by (simp only: end_fields_get(7) [OF that]) (simp add: start_fields_def)
  then have old: "m ''error'' = entries view (w_redis w) ?i ''error''" if "ro_err ro = None"
    using that by (simp only: m_def map_add_def) simp
  have err: "str_of (m ''error'') = (case ro_err ro of Some e \<Rightarrow> err_text e | None \<Rightarrow> str_of (entries view (w_redis w) ?i ''error''))"
    using old m [OF end_fields_get(6)] by (cases "ro_err ro") simp_all
  have t: "t = progress_view pt ?i m" using fs(2) assms(11) by (simp add: m_def entry_update_def)
  have ne: "m \<noteq> Map.empty" using get(1) by auto
  show ?thesis using get err res assms(10) by (simp add: progress_view_fields [OF t ne] stats_fit_def)
qed

text \<open>
  C23. With the server up and the context live, for a task whose payload parses, in a handler that has an
  \<^verbatim>\<open>OpenProvider\<close> (as \<^verbatim>\<open>main\<close> wires it) and with counters that fit 64 bits, the end of the task is what \<^verbatim>\<open>Get\<close>
  shows. The project is that of the payload. If the TSDB cannot be opened, the state is \<^verbatim>\<open>failed\<close> with that error. If the pipeline ran, the
  state is \<^verbatim>\<open>completed\<close> or \<^verbatim>\<open>failed\<close> as \<^verbatim>\<open>ProcessTask\<close> returned nil or not, the counters are those of the pipeline, and
  the error is the pipeline's if it failed; if it succeeded, the error shown is the one that was in the entry
  before, which \<^verbatim>\<open>ProcessTask\<close> does not clear.
\<close>

theorem finished_task_is_observable:
  assumes "redis_store (env_redis E) view" "hset_up (env_redis E) up" "up (w_redis w)" "live_env E"
    and "parse_migrate_payload task = Inr p" "env_open E = Some open"
    and "process_task E rw rand task w = (res, w')"
    and "\<And>provider. open (mp_tsdb_path p) = Inr provider \<Longrightarrow> stats_fit (ro_stats (env_run E (task_config p provider)))"
    and "t = progress_view pt (task_id_from_task rw rand) (entries view (w_redis w') (task_id_from_task rw rand))"
  shows "tp_project_id t = mp_project_id p \<and> tp_state t = (if res = None then ''completed'' else ''failed'')
    \<and> (case open (mp_tsdb_path p) of
         Inl e \<Rightarrow> res \<noteq> None \<and> tp_error t = err_text e
       | Inr provider \<Rightarrow> (let ro = env_run E (task_config p provider) in
           (res = None \<longleftrightarrow> ro_err ro = None)
           \<and> tp_error t = (case ro_err ro of Some e \<Rightarrow> err_text e
               | None \<Rightarrow> str_of (entries view (w_redis w) (task_id_from_task rw rand) ''error''))
           \<and> tp_series_read t = int (series_read (ro_stats ro)) \<and> tp_samples_read t = int (samples_read (ro_stats ro))
           \<and> tp_samples_sent t = int (samples_sent (ro_stats ro)) \<and> tp_batches_sent t = int (batches_sent (ro_stats ro))))"
proof (cases "open (mp_tsdb_path p)")
  case (Inl e)
  with open_failure_observable [OF assms(1-6) Inl assms(7,9)] show ?thesis by simp
next
  case (Inr provider)
  with run_end_observable [OF assms(1-6) Inr assms(7) refl assms(8) [OF Inr] assms(9)] show ?thesis by (simp add: Let_def)
qed

theorem finished_task_is_observable_witness:
  "\<exists>res w'. process_task (ex_env Live None) (Some ''a'') [] (new_migrate_task ex_payload) ex_world = (res, w')
    \<and> tp_state (progress_view no_time ''a'' (entries mem_view (w_redis w') ''a'')) = ''completed''
    \<and> tp_samples_sent (progress_view no_time ''a'' (entries mem_view (w_redis w') ''a'')) = 300"
proof -
  obtain res w' where r: "process_task (ex_env Live None) (Some ''a'') [] (new_migrate_task ex_payload) ex_world = (res, w')" "res = None"
    using ex_env_result [of Live None] by auto
  have fit: "stats_fit (ro_stats (ex_ro None))" by (simp add: stats_fit_def ex_ro_def is_int64_def min_int64_def max_int64_def)
  have live: "live_env (ex_env Live None)" by (simp add: live_env_def)
  have op: "env_open (ex_env Live None) = Some (\<lambda>_. Inr ())" by simp
  from finished_task_is_observable [OF _ _ _ live ex_parse op r(1) _ refl, of mem_view mr_up no_time]
  have "tp_state (progress_view no_time ''a'' (entries mem_view (w_redis w') ''a'')) = ''completed''
    \<and> tp_samples_sent (progress_view no_time ''a'' (entries mem_view (w_redis w') ''a'')) = 300"
    using mem.redis_store_axioms mem_hset_up fit r(2) by (simp add: task_id_from_task_def Let_def) (simp add: ex_ro_def)
  with r(1) show ?thesis by blast
qed

text \<open>
  A task that completes after a failed attempt keeps the error of that attempt: on success the
  \<^verbatim>\<open>error\<close> field is not written, so \<^verbatim>\<open>GET /status\<close> shows a completed task with an error.
\<close>

theorem completed_task_keeps_old_error:
  assumes "redis_store (env_redis E) view" "process_task E rw rand task w = (None, w')"
  shows "entries view (w_redis w') (task_id_from_task rw rand) ''error'' = entries view (w_redis w) (task_id_from_task rw rand) ''error''"
  using assms(2) store_update_field [OF assms(1), of "''error''"] report_progress_field [OF assms(1), of "''error''"]
  by (auto simp: process_task_def finish_task_def Let_def stats_fields_def split: sum.splits option.splits)

theorem completed_task_keeps_old_error_witness:
  "\<exists>w'. process_task (ex_env Live None) (Some ''a'') [] (new_migrate_task ex_payload) ex_world = (None, w')
    \<and> entries mem_view (w_redis w') ''a'' ''error'' = Some ''boom''"
proof -
  obtain w' where r: "process_task (ex_env Live None) (Some ''a'') [] (new_migrate_task ex_payload) ex_world = (None, w')"
    using ex_env_result [of Live None] by auto
  from completed_task_keeps_old_error [OF _ r, of mem_view] mem.redis_store_axioms r show ?thesis
    by (simp add: task_id_from_task_def entries_def mem_view_def progress_key_def progress_prefix_def ex_world_def)
qed

text \<open>
  When the task's context is done by the time the pipeline returns (timeout, shutdown or a cancel
  request), the write of the final state is lost: the entry still says \<^verbatim>\<open>active\<close>, whatever the
  outcome was.
\<close>

theorem cancelled_task_stays_active:
  assumes "redis_ctx (env_redis E) view" "hset_up (env_redis E) up" "up (w_redis w)"
    and "env_ctx_start E = Live" "env_ctx_end E = Done c"
    and "parse_migrate_payload task = Inr p" "env_open E = Some open" "open (mp_tsdb_path p) = Inr provider"
    and "process_task E rw rand task w = (res, w')"
  shows "entries view (w_redis w') (task_id_from_task rw rand) ''state'' = Some ''active''"
proof -
  let ?i = "task_id_from_task rw rand"
  have st: "redis_store (env_redis E) view" using assms(1) by (rule redis_ctx.axioms(1))
  have lost: "entries view (w_redis (store_update E (Done c) ?i fs v)) = entries view (w_redis v)" for fs v
    using redis_ctx.hset_done [OF assms(1), of c "progress_key ?i" fs "w_redis v"]
    by (cases "rd_hset (env_redis E) (Done c) (progress_key ?i) fs (w_redis v)")
      (auto simp: store_update_def progress_update_def entries_def [abs_def] split: sum.splits)
  have "entries view (w_redis (store_update E Live ?i (start_fields E p) w)) ?i ''state'' = Some ''active''"
    using store_update_up(2) [OF st assms(2,3), of ?i "start_fields E p"] by (simp add: entry_update_def start_fields_def)
  then have "entries view (w_redis (report_progress E ?i 0 0 cs (store_update E Live ?i (start_fields E p) w))) ?i ''state'' = Some ''active''" for cs
    by (simp add: report_progress_field [OF st])
  then show ?thesis
    using assms(4-9) by (auto simp: process_task_def finish_task_def Let_def lost start_fields_def split: option.splits)
qed

theorem cancelled_task_stays_active_witness:
  "\<exists>res w'. process_task (ex_env (Done context_canceled) (Some context_canceled)) (Some ''a'') [] (new_migrate_task ex_payload) ex_world = (res, w')
    \<and> res \<noteq> None \<and> entries mem_view (w_redis w') ''a'' ''state'' = Some ''active''"
proof -
  let ?E = "ex_env (Done context_canceled) (Some context_canceled)"
  obtain res w' where r: "process_task ?E (Some ''a'') [] (new_migrate_task ex_payload) ex_world = (res, w')" "res \<noteq> None"
    using ex_env_result [of "Done context_canceled" "Some context_canceled"] by auto
  from cancelled_task_stays_active [of ?E mem_view mr_up ex_world context_canceled _ ex_payload "\<lambda>_. Inr ()" "()", OF _ _ _ _ _ ex_parse _ _ r(1)]
  have "entries mem_view (w_redis w') ''a'' ''state'' = Some ''active''"
    using mem_ctx.redis_ctx_axioms mem_hset_up by (simp add: task_id_from_task_def)
  with r show ?thesis by blast
qed

end
