(* ===== verification/Mimirconfig.thy ===== *)
theory Mimirconfig
  imports Json_Roundtrip "HOL-Library.Finite_Map"
begin

text \<open>
  The per-tenant overrides in the \<^verbatim>\<open>mimir-runtime\<close> ConfigMap (\<^verbatim>\<open>internal/mimirconfig/mimirconfig.go\<close>):
  read the YAML document, set or remove the three managed keys of each tenant, and patch the
  document back. The YAML library and the Kubernetes client are parameters; \<open>yaml_codec\<close> and
  \<open>configmap_api\<close> state what the code relies on.
\<close>

section \<open>YAML values\<close>

text \<open>
  What \<^verbatim>\<open>yaml.v3\<close> decodes into an \<^verbatim>\<open>interface{}\<close>: a mapping is a \<^verbatim>\<open>map[string]interface{}\<close> when all its keys
  are strings and a \<^verbatim>\<open>map[interface{}]interface{}\<close> otherwise.
\<close>

datatype yaml =
    YNull
  | YBool bool
  | YInt int
  | YFloat string
  | YTime string
  | YStr string
  | YSeq "yaml list"
  | YMap "(string, yaml) fmap"
  | YAnyMap "(yaml \<times> yaml) list"

type_synonym ydoc = "(string, yaml) fmap"
type_synonym overrides = "(string, ydoc) fmap"

definition key_ooo :: string where "key_ooo = ''out_of_order_time_window''"
definition key_ing_rate :: string where "key_ing_rate = ''ingestion_rate''"
definition key_ing_burst :: string where "key_ing_burst = ''ingestion_burst_size''"

section \<open>The client\<close>

record mimir_config =
  cfg_namespace :: string
  cfg_configmap_name :: string
  cfg_data_key :: string
  cfg_ooo_window :: string

definition or_default :: "string \<Rightarrow> string \<Rightarrow> string" where
  "or_default s d = (if s = '''' then d else s)"

definition mimir_new :: "mimir_config \<Rightarrow> mimir_config" where
  "mimir_new cfg = \<lparr>cfg_namespace = or_default (cfg_namespace cfg) ''monitoring'',
     cfg_configmap_name = or_default (cfg_configmap_name cfg) ''mimir-runtime'',
     cfg_data_key = or_default (cfg_data_key cfg) ''runtime.yaml'',
     cfg_ooo_window = or_default (cfg_ooo_window cfg) ''2880h''\<rparr>"

section \<open>Operations on the document\<close>

definition extract_overrides :: "ydoc \<Rightarrow> overrides" where
  "extract_overrides doc = (case fmlookup doc ''overrides'' of
     None \<Rightarrow> fmempty
   | Some YNull \<Rightarrow> fmempty
   | Some (YMap v) \<Rightarrow> fmmap (\<lambda>val. case val of YMap tm \<Rightarrow> tm | _ \<Rightarrow> fmempty) v
   | Some _ \<Rightarrow> fmempty)"

definition set_managed :: "string \<Rightarrow> ydoc \<Rightarrow> ydoc" where
  "set_managed ooo tm = fmupd key_ing_burst (YInt 20000000) (fmupd key_ing_rate (YInt 10000000) (fmupd key_ooo (YStr ooo) tm))"

definition apply_tenant :: "string \<Rightarrow> overrides \<Rightarrow> string \<Rightarrow> overrides" where
  "apply_tenant ooo ov tenant =
     (let tm = (case fmlookup ov tenant of None \<Rightarrow> fmempty | Some m \<Rightarrow> m)
      in fmupd tenant (set_managed ooo tm) ov)"

definition put_overrides :: "overrides \<Rightarrow> ydoc \<Rightarrow> ydoc" where
  "put_overrides ov doc = fmupd ''overrides'' (YMap (fmmap YMap ov)) doc"

definition apply_doc :: "string \<Rightarrow> string list \<Rightarrow> ydoc \<Rightarrow> ydoc" where
  "apply_doc ooo tenants doc = put_overrides (foldl (apply_tenant ooo) (extract_overrides doc) tenants) doc"

definition drop_managed :: "ydoc \<Rightarrow> ydoc" where
  "drop_managed tm = fmdrop key_ing_burst (fmdrop key_ing_rate (fmdrop key_ooo tm))"

definition revert_tenant :: "overrides \<Rightarrow> string \<Rightarrow> overrides" where
  "revert_tenant ov tenant = (case fmlookup ov tenant of
     None \<Rightarrow> ov
   | Some tm \<Rightarrow> (let tm' = drop_managed tm in if tm' = fmempty then fmdrop tenant ov else fmupd tenant tm' ov))"

definition revert_doc :: "string list \<Rightarrow> ydoc \<Rightarrow> ydoc" where
  "revert_doc tenants doc =
     (let ov = foldl revert_tenant (extract_overrides doc) tenants
      in if ov = fmempty then fmdrop ''overrides'' doc else put_overrides ov doc)"

section \<open>Operations on the ConfigMap\<close>

text \<open>A write to a nil Go map panics; everything else that fails returns an error.\<close>

datatype fault = Err goerr | Panic string

record 'w k8s_client =
  k8s_get :: "ctx \<Rightarrow> string \<Rightarrow> string \<Rightarrow> ('w, string \<rightharpoonup> string) call"
  k8s_patch :: "ctx \<Rightarrow> string \<Rightarrow> string \<Rightarrow> string \<Rightarrow> ('w, unit) call"

text \<open>\<open>dec\<close> gives \<open>None\<close> for a document that is null: decoding it sets the map to nil.\<close>

record yaml_lib =
  yaml_enc :: "ydoc \<Rightarrow> goerr + string"
  yaml_dec :: "string \<Rightarrow> goerr + ydoc option"

definition parse_runtime_yaml :: "yaml_lib \<Rightarrow> (string \<rightharpoonup> string) \<Rightarrow> string \<Rightarrow> goerr + ydoc option" where
  "parse_runtime_yaml Y data dataKey =
     (let yamlStr = str_of (data dataKey) in
      if yamlStr = '''' then Inr (Some fmempty)
      else case yaml_dec Y yamlStr of
             Inl e \<Rightarrow> Inl (wrapf (''unmarshal '' @ dataKey @ '': '') e)
           | Inr d \<Rightarrow> Inr d)"

definition patch_body :: "string \<Rightarrow> string \<Rightarrow> json" where
  "patch_body dataKey yamlStr = JObj [(''data'', JObj [(dataKey, JStr yamlStr)])]"

definition cm_name :: "mimir_config \<Rightarrow> string" where
  "cm_name c = cfg_namespace c @ ''/'' @ cfg_configmap_name c"

definition patch_configmap :: "yaml_lib \<Rightarrow> 'w k8s_client \<Rightarrow> mimir_config \<Rightarrow> ctx \<Rightarrow> ydoc \<Rightarrow> 'w \<Rightarrow> (fault + unit) \<times> 'w" where
  "patch_configmap Y k c cx doc w = (case yaml_enc Y doc of
     Inl e \<Rightarrow> (Inl (Err (wrapf ''marshal runtime yaml: '' e)), w)
   | Inr s \<Rightarrow>
       (case k8s_patch k cx (cfg_namespace c) (cfg_configmap_name c) (print_json (patch_body (cfg_data_key c) s)) w of
          (Inl e, w') \<Rightarrow> (Inl (Err (wrapf (''patch configmap '' @ cm_name c @ '': '') e)), w')
        | (Inr _, w') \<Rightarrow> (Inr (), w')))"

definition get_doc :: "yaml_lib \<Rightarrow> 'w k8s_client \<Rightarrow> mimir_config \<Rightarrow> ctx \<Rightarrow> 'w \<Rightarrow> (fault + ydoc option) \<times> 'w" where
  "get_doc Y k c cx w = (case k8s_get k cx (cfg_namespace c) (cfg_configmap_name c) w of
     (Inl e, w') \<Rightarrow> (Inl (Err (wrapf (''get configmap '' @ cm_name c @ '': '') e)), w')
   | (Inr data, w') \<Rightarrow>
       (case parse_runtime_yaml Y data (cfg_data_key c) of
          Inl e \<Rightarrow> (Inl (Err e), w')
        | Inr d \<Rightarrow> (Inr d, w')))"

definition apply_overrides :: "yaml_lib \<Rightarrow> 'w k8s_client \<Rightarrow> mimir_config \<Rightarrow> ctx \<Rightarrow> string list \<Rightarrow> 'w \<Rightarrow> (fault + unit) \<times> 'w" where
  "apply_overrides Y k c cx tenants w = (case get_doc Y k c cx w of
     (Inl f, w') \<Rightarrow> (Inl f, w')
   | (Inr None, w') \<Rightarrow> (Inl (Panic ''assignment to entry in nil map''), w')
   | (Inr (Some doc), w') \<Rightarrow> patch_configmap Y k c cx (apply_doc (cfg_ooo_window c) tenants doc) w')"

text \<open>Reading and deleting from a nil map is allowed, and it is marshalled as an empty one.\<close>

definition revert_overrides :: "yaml_lib \<Rightarrow> 'w k8s_client \<Rightarrow> mimir_config \<Rightarrow> ctx \<Rightarrow> string list \<Rightarrow> 'w \<Rightarrow> (fault + unit) \<times> 'w" where
  "revert_overrides Y k c cx tenants w = (case get_doc Y k c cx w of
     (Inl f, w') \<Rightarrow> (Inl f, w')
   | (Inr d, w') \<Rightarrow> patch_configmap Y k c cx (revert_doc tenants (case d of None \<Rightarrow> fmempty | Some doc \<Rightarrow> doc)) w')"

definition noop_apply_overrides :: "ctx \<Rightarrow> string list \<Rightarrow> 'w \<Rightarrow> (fault + unit) \<times> 'w" where
  "noop_apply_overrides cx tenants w = (Inr (), w)"

section \<open>What the document says of a tenant\<close>

text \<open>The value of a key of a tenant, through the maps with string keys only.\<close>

definition setting :: "ydoc \<Rightarrow> string \<Rightarrow> string \<Rightarrow> yaml option" where
  "setting doc tenant k = (case fmlookup (extract_overrides doc) tenant of None \<Rightarrow> None | Some tm \<Rightarrow> fmlookup tm k)"

definition managed :: "string \<Rightarrow> string \<Rightarrow> yaml option" where
  "managed ooo k = (if k = key_ooo then Some (YStr ooo) else if k = key_ing_rate then Some (YInt 10000000)
     else if k = key_ing_burst then Some (YInt 20000000) else None)"

lemmas key_defs = key_ooo_def key_ing_rate_def key_ing_burst_def

lemma extract_put [simp]: "extract_overrides (put_overrides ov doc) = ov"
  by (simp add: extract_overrides_def put_overrides_def fmap.map_comp comp_def fmap.map_id0 [unfolded id_def])

lemma extract_drop [simp]: "extract_overrides (fmdrop ''overrides'' doc) = fmempty"
  by (simp add: extract_overrides_def)

lemma lookup_apply_tenant:
  "fmlookup (apply_tenant ooo ov u) t =
     (if t = u then Some (set_managed ooo (case fmlookup ov t of None \<Rightarrow> fmempty | Some m \<Rightarrow> m)) else fmlookup ov t)"
  by (simp add: apply_tenant_def Let_def)

lemma lookup_revert_tenant:
  "fmlookup (revert_tenant ov u) t =
     (if t = u then (case fmlookup ov t of None \<Rightarrow> None
        | Some m \<Rightarrow> if drop_managed m = fmempty then None else Some (drop_managed m)) else fmlookup ov t)"
  by (simp add: revert_tenant_def Let_def split: option.splits)

lemma lookup_apply_tenants:
  "fmlookup (foldl (apply_tenant ooo) ov ts) t =
     (if t \<in> set ts then Some (set_managed ooo (case fmlookup ov t of None \<Rightarrow> fmempty | Some m \<Rightarrow> m)) else fmlookup ov t)"
proof (induction ts arbitrary: ov)
  case (Cons u ts)
  have idem: "set_managed ooo (set_managed ooo m) = set_managed ooo m" for m
    by (rule fmap_ext) (simp add: set_managed_def)
  show ?case by (simp add: Cons lookup_apply_tenant idem)
qed simp

lemma lookup_revert_tenants:
  "fmlookup (foldl revert_tenant ov ts) t =
     (if t \<in> set ts then (case fmlookup ov t of None \<Rightarrow> None
        | Some m \<Rightarrow> if drop_managed m = fmempty then None else Some (drop_managed m)) else fmlookup ov t)"
proof (induction ts arbitrary: ov)
  case (Cons u ts)
  have idem: "drop_managed (drop_managed m) = drop_managed m" for m
    by (rule fmap_ext) (simp add: drop_managed_def)
  show ?case by (auto simp: Cons lookup_revert_tenant idem split: option.splits)
qed simp

lemma lookup_set_managed: "fmlookup (set_managed ooo m) k = (case managed ooo k of Some v \<Rightarrow> Some v | None \<Rightarrow> fmlookup m k)"
  by (auto simp: set_managed_def managed_def key_defs)

lemma lookup_drop_managed: "fmlookup (drop_managed m) k = (case managed ooo k of Some v \<Rightarrow> None | None \<Rightarrow> fmlookup m k)"
  by (auto simp: drop_managed_def managed_def key_defs)

lemma setting_apply:
  "setting (apply_doc ooo ts doc) t k =
     (case managed ooo k of Some v \<Rightarrow> if t \<in> set ts then Some v else setting doc t k | None \<Rightarrow> setting doc t k)"
  by (auto simp: setting_def apply_doc_def lookup_apply_tenants lookup_set_managed split: option.splits)

lemma setting_revert:
  "setting (revert_doc ts doc) t k =
     (case managed ooo k of Some v \<Rightarrow> if t \<in> set ts then None else setting doc t k | None \<Rightarrow> setting doc t k)"
proof -
  have e: "extract_overrides (revert_doc ts doc) = foldl revert_tenant (extract_overrides doc) ts"
    by (simp add: revert_doc_def Let_def)
  have "fmlookup m k = None" if "drop_managed m = fmempty" "managed ooo k = None" for m
    using lookup_drop_managed [of m k ooo] that by simp
  then show ?thesis
    by (auto simp: setting_def e lookup_revert_tenants lookup_drop_managed [of _ k ooo] split: option.splits)
qed

section \<open>Properties of the document operations\<close>

text \<open>
  A document the package can represent: \<^verbatim>\<open>overrides\<close> is absent, null or a map from tenants to maps, all with
  string keys. \<open>tenant_entry\<close> is a tenant's entry in it as YAML has it.
\<close>

definition is_map :: "yaml \<Rightarrow> bool" where
  "is_map v = (case v of YMap _ \<Rightarrow> True | _ \<Rightarrow> False)"

definition representable :: "ydoc \<Rightarrow> bool" where
  "representable doc \<longleftrightarrow> (case fmlookup doc ''overrides'' of
     None \<Rightarrow> True
   | Some YNull \<Rightarrow> True
   | Some (YMap v) \<Rightarrow> fmpred (\<lambda>_. is_map) v
   | Some _ \<Rightarrow> False)"

definition tenant_entry :: "ydoc \<Rightarrow> string \<Rightarrow> yaml option" where
  "tenant_entry doc t = (case fmlookup doc ''overrides'' of Some (YMap v) \<Rightarrow> fmlookup v t | _ \<Rightarrow> None)"

lemma lookup_extract:
  "fmlookup (extract_overrides doc) t = map_option (\<lambda>e. case e of YMap tm \<Rightarrow> tm | _ \<Rightarrow> fmempty) (tenant_entry doc t)"
  by (simp add: extract_overrides_def tenant_entry_def split: option.splits yaml.splits)

lemma representable_entry: "representable doc \<Longrightarrow> tenant_entry doc t = Some e \<Longrightarrow> \<exists>tm. e = YMap tm"
proof -
  assume rep: "representable doc" and e: "tenant_entry doc t = Some e"
  from e obtain v where v: "fmlookup doc ''overrides'' = Some (YMap v)" "fmlookup v t = Some e"
    by (simp add: tenant_entry_def split: option.splits yaml.splits)
  from rep v(1) have "fmpred (\<lambda>_. is_map) v" by (simp add: representable_def)
  from fmpredD [OF this v(2)] show ?thesis by (simp add: is_map_def split: yaml.splits)
qed

lemma entry_extract: "representable doc \<Longrightarrow> tenant_entry doc t = map_option YMap (fmlookup (extract_overrides doc) t)"
  using representable_entry [of doc t] by (cases "tenant_entry doc t") (auto simp: lookup_extract)

lemma entry_apply: "tenant_entry (apply_doc ooo ts doc) t = map_option YMap (fmlookup (foldl (apply_tenant ooo) (extract_overrides doc) ts) t)"
  by (simp add: tenant_entry_def apply_doc_def put_overrides_def)

text \<open>
  C14. On a document it can represent, applying overrides gives each of the given tenants an entry that has the
  three managed keys and, beside them, exactly the keys and values its entry had; the entries of all other
  tenants, and everything outside \<^verbatim>\<open>overrides\<close>, are as they were. The result is again such a document.
\<close>

theorem apply_sets_exactly_managed:
  assumes "representable doc" "doc' = apply_doc ooo ts doc"
  shows "representable doc'
    \<and> (\<forall>t. t \<notin> set ts \<longrightarrow> tenant_entry doc' t = tenant_entry doc t)
    \<and> (\<forall>t \<in> set ts. \<exists>tm. tenant_entry doc' t = Some (YMap tm)
         \<and> fmlookup tm key_ooo = Some (YStr ooo) \<and> fmlookup tm key_ing_rate = Some (YInt 10000000)
         \<and> fmlookup tm key_ing_burst = Some (YInt 20000000)
         \<and> (\<forall>k. k \<notin> {key_ooo, key_ing_rate, key_ing_burst} \<longrightarrow>
              fmlookup tm k = (case tenant_entry doc t of Some (YMap old) \<Rightarrow> fmlookup old k | _ \<Rightarrow> None)))
    \<and> (\<forall>x. x \<noteq> ''overrides'' \<longrightarrow> fmlookup doc' x = fmlookup doc x)"
proof (intro conjI ballI allI impI)
  show "representable doc'" by (auto simp: assms(2) representable_def apply_doc_def put_overrides_def is_map_def fmpred_iff)
  show "tenant_entry doc' t = tenant_entry doc t" if "t \<notin> set ts" for t
    using that entry_extract [OF assms(1)] by (simp add: assms(2) entry_apply lookup_apply_tenants)
  show "fmlookup doc' x = fmlookup doc x" if "x \<noteq> ''overrides''" for x
    using that by (simp add: assms(2) apply_doc_def put_overrides_def)
  fix t
  assume t: "t \<in> set ts"
  let ?old = "case fmlookup (extract_overrides doc) t of None \<Rightarrow> fmempty | Some m \<Rightarrow> m"
  have "tenant_entry doc' t = Some (YMap (set_managed ooo ?old))" using t by (simp add: assms(2) entry_apply lookup_apply_tenants)
  moreover have "fmlookup ?old k = (case tenant_entry doc t of Some (YMap old) \<Rightarrow> fmlookup old k | _ \<Rightarrow> None)" for k
    by (simp add: lookup_extract split: option.splits yaml.splits)
  ultimately show "\<exists>tm. tenant_entry doc' t = Some (YMap tm)
         \<and> fmlookup tm key_ooo = Some (YStr ooo) \<and> fmlookup tm key_ing_rate = Some (YInt 10000000)
         \<and> fmlookup tm key_ing_burst = Some (YInt 20000000)
         \<and> (\<forall>k. k \<notin> {key_ooo, key_ing_rate, key_ing_burst} \<longrightarrow>
              fmlookup tm k = (case tenant_entry doc t of Some (YMap old) \<Rightarrow> fmlookup old k | _ \<Rightarrow> None))"
    by (simp add: lookup_set_managed managed_def key_defs)
qed

theorem apply_sets_exactly_managed_witness:
  "\<exists>tm. tenant_entry (apply_doc ''2880h'' [''t1''] (fmupd ''overrides'' (YMap (fmupd ''t1'' (YMap (fmupd ''x'' (YInt 3) fmempty)) fmempty)) fmempty)) ''t1'' = Some (YMap tm)
     \<and> fmlookup tm ''ingestion_rate'' = Some (YInt 10000000) \<and> fmlookup tm ''x'' = Some (YInt 3)"
proof -
  let ?doc = "fmupd ''overrides'' (YMap (fmupd ''t1'' (YMap (fmupd ''x'' (YInt 3) fmempty)) fmempty)) fmempty :: ydoc"
  have rep: "representable ?doc" by (simp add: representable_def is_map_def fmpred_iff)
  have e: "tenant_entry ?doc ''t1'' = Some (YMap (fmupd ''x'' (YInt 3) fmempty))" by (simp add: tenant_entry_def)
  from apply_sets_exactly_managed [OF rep refl, of "''2880h''" "[''t1'']"] obtain tm where
    "tenant_entry (apply_doc ''2880h'' [''t1''] ?doc) ''t1'' = Some (YMap tm)" "fmlookup tm key_ing_rate = Some (YInt 10000000)"
    "\<forall>k. k \<notin> {key_ooo, key_ing_rate, key_ing_burst} \<longrightarrow>
       fmlookup tm k = (case tenant_entry ?doc ''t1'' of Some (YMap old) \<Rightarrow> fmlookup old k | _ \<Rightarrow> None)"
    by (elim conjE) auto
  then show ?thesis by (intro exI [of _ tm]) (simp add: e key_defs)
qed

lemma put_put: "put_overrides ov (put_overrides ov' doc) = put_overrides ov doc"
  by (simp add: put_overrides_def)

lemma drop_put: "fmdrop ''overrides'' (put_overrides ov doc) = fmdrop ''overrides'' doc"
  by (rule fmap_ext) (simp add: put_overrides_def)

lemma set_managed_idem [simp]: "set_managed ooo (set_managed ooo m) = set_managed ooo m"
  by (rule fmap_ext) (simp add: set_managed_def)

lemma drop_set_managed: "drop_managed (set_managed ooo m) = drop_managed m"
  by (rule fmap_ext) (auto simp: set_managed_def drop_managed_def key_defs)

text \<open>
  Applying overrides is idempotent, and the order and repetition of tenants do not matter: only
  their set does.
\<close>

theorem apply_idempotent:
  assumes "set ts = set us"
  shows "apply_doc ooo us (apply_doc ooo ts doc) = apply_doc ooo ts doc"
proof -
  have "foldl (apply_tenant ooo) (foldl (apply_tenant ooo) ov ts) us = foldl (apply_tenant ooo) ov ts" for ov
    by (rule fmap_ext) (simp add: lookup_apply_tenants assms)
  then show ?thesis by (simp add: apply_doc_def put_put)
qed

theorem apply_idempotent_witness:
  "apply_doc ''2880h'' [''b'', ''a''] (apply_doc ''2880h'' [''a'', ''b'', ''a''] fmempty) = apply_doc ''2880h'' [''a'', ''b'', ''a''] fmempty"
  using apply_idempotent [of "[''a'', ''b'', ''a'']" "[''b'', ''a'']" "''2880h''" fmempty] by fastforce

lemma revert_tenants_empty: "foldl revert_tenant fmempty ts = fmempty"
  by (rule fmap_ext) (simp add: lookup_revert_tenants)

text \<open>
  Reverting removes the three managed keys of exactly the given tenants and nothing else that
  the maps with string keys hold; doing it twice changes nothing more.
\<close>

theorem revert_removes_exactly_managed:
  "setting (revert_doc ts doc) t k =
     (if t \<in> set ts \<and> k \<in> {key_ooo, key_ing_rate, key_ing_burst} then None else setting doc t k)
   \<and> (x \<noteq> ''overrides'' \<longrightarrow> fmlookup (revert_doc ts doc) x = fmlookup doc x)
   \<and> revert_doc ts (revert_doc ts doc) = revert_doc ts doc"
proof (intro conjI impI)
  show "setting (revert_doc ts doc) t k =
     (if t \<in> set ts \<and> k \<in> {key_ooo, key_ing_rate, key_ing_burst} then None else setting doc t k)"
    by (simp add: setting_revert [of _ _ _ _ "[]"] managed_def)
  show "x \<noteq> ''overrides'' \<Longrightarrow> fmlookup (revert_doc ts doc) x = fmlookup doc x"
    by (simp add: revert_doc_def put_overrides_def Let_def)
  have di: "drop_managed (drop_managed m) = drop_managed m" for m
    by (rule fmap_ext) (simp add: drop_managed_def)
  have "foldl revert_tenant (foldl revert_tenant ov ts) ts = foldl revert_tenant ov ts" for ov
    by (rule fmap_ext) (auto simp: lookup_revert_tenants di split: option.splits)
  then show "revert_doc ts (revert_doc ts doc) = revert_doc ts doc"
    by (auto simp: revert_doc_def put_put Let_def revert_tenants_empty)
qed

theorem revert_removes_exactly_managed_witness:
  "fmlookup (revert_doc [''t1''] (apply_doc ''2880h'' [''t1''] (fmupd ''other'' (YInt 3) fmempty))) ''other'' = Some (YInt 3)"
  using revert_removes_exactly_managed [of "[''t1'']" "apply_doc ''2880h'' [''t1''] (fmupd ''other'' (YInt 3) fmempty)" "[]" "[]" "''other''"]
  by (simp add: apply_doc_def put_overrides_def)

text \<open>
  A document the package can edit without loss: \<^verbatim>\<open>overrides\<close> is absent or a non-empty map of maps.
\<close>

definition wf_doc :: "ydoc \<Rightarrow> bool" where
  "wf_doc doc \<longleftrightarrow> (case fmlookup doc ''overrides'' of
     None \<Rightarrow> True
   | Some (YMap v) \<Rightarrow> v \<noteq> fmempty \<and> fmpred (\<lambda>_ val. case val of YMap tm \<Rightarrow> True | _ \<Rightarrow> False) v
   | Some _ \<Rightarrow> False)"

lemma wf_doc_put: "wf_doc doc \<Longrightarrow> fmlookup doc ''overrides'' \<noteq> None \<Longrightarrow> put_overrides (extract_overrides doc) doc = doc"
proof -
  assume wf: "wf_doc doc" and n: "fmlookup doc ''overrides'' \<noteq> None"
  then obtain v where v: "fmlookup doc ''overrides'' = Some (YMap v)" "fmpred (\<lambda>_ val. case val of YMap tm \<Rightarrow> True | _ \<Rightarrow> False) v"
    by (cases "the (fmlookup doc ''overrides'')") (auto simp: wf_doc_def)
  have "fmmap YMap (fmmap (\<lambda>val. case val of YMap tm \<Rightarrow> tm | _ \<Rightarrow> fmempty) v) = v"
  proof (rule fmap_ext)
    fix x
    show "fmlookup (fmmap YMap (fmmap (\<lambda>val. case val of YMap tm \<Rightarrow> tm | _ \<Rightarrow> fmempty) v)) x = fmlookup v x"
      using fmpredD [OF v(2), of x] by (cases "fmlookup v x") (fastforce split: yaml.splits)+
  qed
  then have "put_overrides (extract_overrides doc) doc = fmupd ''overrides'' (YMap v) doc"
    by (simp add: put_overrides_def extract_overrides_def v(1))
  also have "\<dots> = doc" by (rule fmap_ext) (auto simp: v(1))
  finally show ?thesis .
qed

lemma fmmap_empty_iff: "fmmap f v = fmempty \<longleftrightarrow> v = fmempty"
proof
  assume e: "fmmap f v = fmempty"
  show "v = fmempty"
  proof (rule fmap_ext)
    fix x
    have "fmlookup (fmmap f v) x = None" by (simp add: e)
    then show "fmlookup v x = fmlookup fmempty x" by simp
  qed
qed simp

lemma wf_doc_empty: "wf_doc doc \<Longrightarrow> extract_overrides doc = fmempty \<longleftrightarrow> fmlookup doc ''overrides'' = None"
  by (auto simp: wf_doc_def extract_overrides_def fmmap_empty_iff split: option.splits yaml.splits)

text \<open>
  C16. Revert after apply, on any document, gives what revert alone gives: nothing that apply set survives it,
  and a managed key that a tenant had before is removed, not restored. It gives back the very document
  apply was run on, when \<^verbatim>\<open>overrides\<close> is absent or a non-empty map of maps and the given tenants have no entry
  there, or a non-empty one without managed keys.
\<close>

theorem revert_undoes_apply:
  "revert_doc ts (apply_doc ooo ts doc) = revert_doc ts doc
   \<and> (wf_doc doc \<and> (\<forall>t \<in> set ts. \<forall>tm. fmlookup (extract_overrides doc) t = Some tm \<longrightarrow> tm \<noteq> fmempty \<and> drop_managed tm = tm)
      \<longrightarrow> revert_doc ts (apply_doc ooo ts doc) = doc)"
proof -
  let ?ov = "extract_overrides doc"
  have em: "drop_managed fmempty = fmempty" by (rule fmap_ext) (simp add: drop_managed_def)
  have "foldl revert_tenant (foldl (apply_tenant ooo) ?ov ts) ts = foldl revert_tenant ?ov ts"
    by (rule fmap_ext) (auto simp: lookup_revert_tenants lookup_apply_tenants drop_set_managed em split: option.splits)
  then have same: "revert_doc ts (apply_doc ooo ts doc) = revert_doc ts doc"
    by (simp add: revert_doc_def apply_doc_def put_put drop_put Let_def)
  have "revert_doc ts doc = doc"
    if wf: "wf_doc doc" and clean: "\<forall>t \<in> set ts. \<forall>tm. fmlookup ?ov t = Some tm \<longrightarrow> tm \<noteq> fmempty \<and> drop_managed tm = tm"
  proof -
    have "foldl revert_tenant ?ov ts = ?ov"
      by (rule fmap_ext) (use clean in \<open>auto simp: lookup_revert_tenants split: option.splits\<close>)
    then show ?thesis using wf_doc_put [OF wf] wf_doc_empty [OF wf] by (auto simp: revert_doc_def intro: fmap_ext)
  qed
  with same show ?thesis by simp
qed

theorem revert_undoes_apply_witness:
  "revert_doc [''t1''] (apply_doc ''2880h'' [''t1''] (fmupd ''other'' (YInt 3) fmempty)) = fmupd ''other'' (YInt 3) fmempty"
proof -
  have "wf_doc (fmupd ''other'' (YInt 3) fmempty)" by (simp add: wf_doc_def)
  moreover have "extract_overrides (fmupd ''other'' (YInt 3) fmempty) = fmempty" by (simp add: extract_overrides_def)
  ultimately show ?thesis using conjunct2 [OF revert_undoes_apply [of "[''t1'']" "''2880h''" "fmupd ''other'' (YInt 3) fmempty"]] by simp
qed

text \<open>
  What the package cannot represent it drops: if \<^verbatim>\<open>overrides\<close> has a key that YAML does not read as a
  string (a numeric tenant id), all existing overrides are lost on apply; and a tenant whose entry
  is not a map (\<^verbatim>\<open>null\<close>, say) has its entry replaced by an empty map.
\<close>

theorem apply_drops_what_it_cannot_represent:
  "(fmlookup doc ''overrides'' = Some (YAnyMap m) \<longrightarrow> extract_overrides (apply_doc ooo ts doc) = foldl (apply_tenant ooo) fmempty ts)
   \<and> (fmlookup doc ''overrides'' = Some (YMap v) \<and> fmlookup v t = Some YNull \<and> t \<notin> set ts \<longrightarrow>
        fmlookup (extract_overrides (apply_doc ooo ts doc)) t = Some fmempty)"
  by (auto simp: apply_doc_def lookup_apply_tenants) (simp_all add: extract_overrides_def)

theorem apply_drops_what_it_cannot_represent_witness:
  "fmlookup (fmupd ''overrides'' (YAnyMap [(YInt 42, YMap fmempty)]) fmempty) ''overrides'' = Some (YAnyMap [(YInt 42, YMap fmempty)])
   \<and> extract_overrides (apply_doc ''2880h'' [] (fmupd ''overrides'' (YAnyMap [(YInt 42, YMap fmempty)]) fmempty)) = fmempty"
  using apply_drops_what_it_cannot_represent [of "fmupd ''overrides'' (YAnyMap [(YInt 42, YMap fmempty)]) fmempty"
      "[(YInt 42, YMap fmempty)]" "''2880h''" "[]"] by simp

section \<open>Sequences of edits\<close>

text \<open>
  The life of the document: migrations apply overrides, the revert tool removes them, in any order.
  \<open>last_edit\<close> is the last edit that names a tenant.
\<close>

datatype edit = Applied "string list" | Reverted "string list"

fun edit_tenants :: "edit \<Rightarrow> string list" where
  "edit_tenants (Applied ts) = ts"
| "edit_tenants (Reverted ts) = ts"

fun edit_doc :: "string \<Rightarrow> ydoc \<Rightarrow> edit \<Rightarrow> ydoc" where
  "edit_doc ooo doc (Applied ts) = apply_doc ooo ts doc"
| "edit_doc ooo doc (Reverted ts) = revert_doc ts doc"

definition last_edit :: "string \<Rightarrow> edit list \<Rightarrow> edit option" where
  "last_edit t es = find (\<lambda>e. t \<in> set (edit_tenants e)) (rev es)"

lemma last_edit_snoc: "last_edit t (es @ [e]) = (if t \<in> set (edit_tenants e) then Some e else last_edit t es)"
  by (simp add: last_edit_def)

lemma wf_doc_put_iff [simp]: "wf_doc (put_overrides ov doc) \<longleftrightarrow> ov \<noteq> fmempty"
  by (auto simp: wf_doc_def put_overrides_def fmmap_empty_iff intro!: fmpredI)

lemma wf_doc_revert: "wf_doc (revert_doc ts doc)"
  by (simp add: revert_doc_def Let_def) (simp add: wf_doc_def)

lemma wf_doc_apply: "ts \<noteq> [] \<Longrightarrow> wf_doc (apply_doc ooo ts doc)"
proof -
  assume "ts \<noteq> []"
  then have "fmlookup (foldl (apply_tenant ooo) (extract_overrides doc) ts) (hd ts) \<noteq> None" by (simp add: lookup_apply_tenants)
  then show ?thesis by (auto simp: apply_doc_def)
qed

text \<open>
  C15. Over any sequence of apply and revert, the document stays one the package can edit without loss;
  each managed key of a tenant is what the last edit that names the tenant left (set, or absent),
  a tenant that no edit names keeps its settings, and so does every key that is not managed.
\<close>

theorem last_edit_decides:
  "(wf_doc doc \<and> list_all (\<lambda>e. edit_tenants e \<noteq> []) es \<longrightarrow> wf_doc (foldl (edit_doc ooo) doc es))
   \<and> setting (foldl (edit_doc ooo) doc es) t k =
      (case managed ooo k of
         None \<Rightarrow> setting doc t k
       | Some v \<Rightarrow> (case last_edit t es of None \<Rightarrow> setting doc t k | Some (Applied _) \<Rightarrow> Some v | Some (Reverted _) \<Rightarrow> None))"
proof (induction es rule: rev_induct)
  case Nil
  then show ?case by (simp add: last_edit_def split: option.splits)
next
  case (snoc e es)
  show ?case
  proof (cases e)
    case (Applied ts)
    with snoc show ?thesis by (auto simp: wf_doc_apply last_edit_snoc setting_apply split: option.splits)
  next
    case (Reverted ts)
    with snoc show ?thesis by (auto simp: wf_doc_revert last_edit_snoc setting_revert [of _ _ _ _ ooo] split: option.splits)
  qed
qed

theorem last_edit_decides_witness:
  "wf_doc fmempty
   \<and> setting (foldl (edit_doc ''2880h'') fmempty [Applied [''a'', ''b''], Reverted [''a'']]) ''a'' key_ooo = None
   \<and> setting (foldl (edit_doc ''2880h'') fmempty [Applied [''a'', ''b''], Reverted [''a'']]) ''b'' key_ooo = Some (YStr ''2880h'')
   \<and> wf_doc (foldl (edit_doc ''2880h'') fmempty [Applied [''a'', ''b''], Reverted [''a'']])"
  using last_edit_decides [of fmempty "[Applied [''a'', ''b''], Reverted [''a'']]" "''2880h''" "''a''" key_ooo]
    last_edit_decides [of fmempty "[Applied [''a'', ''b''], Reverted [''a'']]" "''2880h''" "''b''" key_ooo]
  by (simp add: wf_doc_def managed_def last_edit_def)

section \<open>The ConfigMap and the YAML library\<close>

text \<open>Marshalled YAML is non-empty UTF-8 text that decodes to the same document.\<close>

locale yaml_codec =
  fixes Y :: yaml_lib
  assumes dec_enc: "yaml_enc Y doc = Inr s \<Longrightarrow> yaml_dec Y s = Inr (Some doc) \<and> valid_utf8 s \<and> s \<noteq> []"

text \<open>
  \<open>cms w (namespace, name)\<close> is the data of a ConfigMap. A merge patch whose body is an object with one
  data key replaces the value of that key and nothing else; a failed patch did so or nothing.
\<close>

type_synonym configmaps = "string \<times> string \<rightharpoonup> (string \<rightharpoonup> string)"

definition merge_patch :: "string \<times> string \<Rightarrow> string \<Rightarrow> string \<Rightarrow> configmaps \<Rightarrow> configmaps" where
  "merge_patch n k v M = (case M n of None \<Rightarrow> M | Some d \<Rightarrow> M(n \<mapsto> d(k \<mapsto> v)))"

locale configmap_api =
  fixes k8s :: "'w k8s_client" and cms :: "'w \<Rightarrow> configmaps"
  assumes get_ok: "k8s_get k8s cx ns n w = (Inr d, w') \<Longrightarrow> cms w (ns, n) = Some d \<and> cms w' = cms w"
    and get_err: "k8s_get k8s cx ns n w = (Inl e, w') \<Longrightarrow> cms w' = cms w"
    and patch_ok: "k8s_patch k8s cx ns n body w = (Inr u, w') \<Longrightarrow> parse_all body = Some (patch_body k v) \<Longrightarrow>
      cms w (ns, n) \<noteq> None \<and> cms w' = merge_patch (ns, n) k v (cms w)"
    and patch_err: "k8s_patch k8s cx ns n body w = (Inl e, w') \<Longrightarrow> parse_all body = Some (patch_body k v) \<Longrightarrow>
      cms w' = cms w \<or> cms w' = merge_patch (ns, n) k v (cms w)"

definition cm_key :: "mimir_config \<Rightarrow> string \<times> string" where
  "cm_key c = (cfg_namespace c, cfg_configmap_name c)"

locale mimir_store = yaml_codec Y + configmap_api k8s cms
  for Y and k8s :: "'w k8s_client" and cms +
  fixes c :: mimir_config
  assumes key_utf8: "valid_utf8 (cfg_data_key c)"
begin

lemma parse_patch: "valid_utf8 s \<Longrightarrow> parse_all (print_json (patch_body (cfg_data_key c) s)) = Some (patch_body (cfg_data_key c) s)"
  using key_utf8 by (intro parse_all_print) (simp_all add: patch_body_def max_nesting_def wire_eval)

lemma get_doc_ok:
  assumes "get_doc Y k8s c cx w = (Inr d, w')"
  shows "\<exists>data. cms w (cm_key c) = Some data \<and> parse_runtime_yaml Y data (cfg_data_key c) = Inr d \<and> cms w' = cms w"
  using assms get_ok [of cx "cfg_namespace c" "cfg_configmap_name c" w _ w']
  by (auto simp: get_doc_def cm_key_def split: prod.splits sum.splits)

lemma get_doc_err: "get_doc Y k8s c cx w = (Inl f, w') \<Longrightarrow> cms w' = cms w"
  using get_ok [of cx "cfg_namespace c" "cfg_configmap_name c" w _ w'] get_err [of cx "cfg_namespace c" "cfg_configmap_name c" w _ w']
  by (auto simp: get_doc_def split: prod.splits sum.splits)

lemma patch_configmap_effect:
  assumes "patch_configmap Y k8s c cx doc w = (res, w')"
  shows "cms w' = cms w \<and> res \<noteq> Inr ()
    \<or> (\<exists>s. yaml_enc Y doc = Inr s \<and> cms w' = merge_patch (cm_key c) (cfg_data_key c) s (cms w))"
proof (cases "yaml_enc Y doc")
  case (Inl e)
  with assms show ?thesis by (auto simp: patch_configmap_def)
next
  case (Inr s)
  then have u: "valid_utf8 s" using dec_enc by blast
  show ?thesis
    using assms Inr patch_ok [OF _ parse_patch [OF u]] patch_err [OF _ parse_patch [OF u]]
    by (fastforce simp: patch_configmap_def cm_key_def split: prod.splits sum.splits)
qed

text \<open>What the ConfigMap holds after the patch, decoded.\<close>

lemma merge_patch_decodes:
  assumes "yaml_enc Y doc = Inr s" "M (cm_key c) = Some data"
  shows "\<exists>data'. merge_patch (cm_key c) (cfg_data_key c) s M (cm_key c) = Some data'
    \<and> parse_runtime_yaml Y data' (cfg_data_key c) = Inr (Some doc)
    \<and> (\<forall>x. x \<noteq> cfg_data_key c \<longrightarrow> data' x = data x)"
  using assms dec_enc [OF assms(1)] by (auto simp: merge_patch_def parse_runtime_yaml_def)

lemma merge_patch_other: "n \<noteq> cm_key c \<Longrightarrow> merge_patch (cm_key c) k s M n = M n"
  by (auto simp: merge_patch_def split: option.splits)

text \<open>An edit of the document that was read, patched back: all of it arrives, or nothing.\<close>

lemma patch_outcome:
  assumes "cms w (cm_key c) = Some data" "cms w1 = cms w" "patch_configmap Y k8s c cx doc w1 = (res, w')"
  shows "(res \<noteq> Inr () \<and> cms w' = cms w)
    \<or> (\<exists>data'. cms w' (cm_key c) = Some data' \<and> parse_runtime_yaml Y data' (cfg_data_key c) = Inr (Some doc)
        \<and> (\<forall>x. x \<noteq> cfg_data_key c \<longrightarrow> data' x = data x) \<and> (\<forall>n. n \<noteq> cm_key c \<longrightarrow> cms w' n = cms w n))"
  using patch_configmap_effect [OF assms(3)]
proof
  assume "\<exists>s. yaml_enc Y doc = Inr s \<and> cms w' = merge_patch (cm_key c) (cfg_data_key c) s (cms w1)"
  then obtain s where s: "yaml_enc Y doc = Inr s" "cms w' = merge_patch (cm_key c) (cfg_data_key c) s (cms w)"
    using assms(2) by auto
  from merge_patch_decodes [OF s(1), of "cms w", OF assms(1)] merge_patch_other s(2) show ?thesis by auto
qed (use assms(2) in auto)

end

section \<open>A concrete cluster\<close>

definition mem_k8s :: "configmaps k8s_client" where
  "mem_k8s = \<lparr>k8s_get = (\<lambda>cx ns n w. case w (ns, n) of None \<Rightarrow> (Inl (errors_new ''not found''), w) | Some d \<Rightarrow> (Inr d, w)),
     k8s_patch = (\<lambda>cx ns n body w.
       (case parse_all body of
          Some (JObj [(d, JObj [(k, JStr v)])]) \<Rightarrow>
            if d = ''data'' \<and> w (ns, n) \<noteq> None then (Inr (), merge_patch (ns, n) k v w) else (Inl (errors_new ''rejected''), w)
        | _ \<Rightarrow> (Inl (errors_new ''bad request''), w)))\<rparr>"

definition ex_docs :: "(ydoc \<times> string) list" where
  "ex_docs = [(fmempty, ''{}''), (apply_doc ''2880h'' [''a''] fmempty, ''A''), (apply_doc ''2880h'' [''b''] fmempty, ''B'')]"

text \<open>A codec that knows a table of documents and refuses the others.\<close>

definition ex_yaml :: yaml_lib where
  "ex_yaml = \<lparr>yaml_enc = (\<lambda>doc. case map_of ex_docs doc of Some s \<Rightarrow> Inr s | None \<Rightarrow> Inl (errors_new ''unsupported'')),
     yaml_dec = (\<lambda>s. case map_of (map prod.swap ex_docs) s of Some doc \<Rightarrow> Inr (Some doc) | None \<Rightarrow> Inl (errors_new ''syntax''))\<rparr>"

definition ex_mimir :: mimir_config where
  "ex_mimir = mimir_new \<lparr>cfg_namespace = [], cfg_configmap_name = [], cfg_data_key = [], cfg_ooo_window = []\<rparr>"

definition ex_cluster :: configmaps where
  "ex_cluster = [(''monitoring'', ''mimir-runtime'') \<mapsto> [''other.txt'' \<mapsto> ''x'']]"

lemma ex_mimir_simps [simp]:
  "cfg_namespace ex_mimir = ''monitoring''" "cfg_configmap_name ex_mimir = ''mimir-runtime''"
  "cfg_data_key ex_mimir = ''runtime.yaml''" "cfg_ooo_window ex_mimir = ''2880h''"
  by (simp_all add: ex_mimir_def mimir_new_def or_default_def)

lemma patch_body_iff: "j = patch_body k v \<longleftrightarrow> j = JObj [(''data'', JObj [(k, JStr v)])]"
  by (simp add: patch_body_def)

interpretation ex_store: mimir_store ex_yaml mem_k8s "\<lambda>w. w" ex_mimir
proof
  fix doc s assume "yaml_enc ex_yaml doc = Inr s"
  then have "(doc, s) \<in> set ex_docs" by (auto simp: ex_yaml_def split: option.splits dest: map_of_SomeD)
  then show "yaml_dec ex_yaml s = Inr (Some doc) \<and> valid_utf8 s \<and> s \<noteq> []"
    by (auto simp: ex_docs_def ex_yaml_def wire_eval)
qed (auto simp: mem_k8s_def patch_body_def wire_eval split: option.splits json.splits list.splits if_splits)

section \<open>Properties of the client\<close>

lemma apply_overrides_effect:
  assumes "mimir_store Y k8s cms c" "apply_overrides Y k8s c cx ts w = (res, w')"
  shows "(res \<noteq> Inr () \<and> cms w' = cms w)
    \<or> (\<exists>data doc data'. cms w (cm_key c) = Some data \<and> parse_runtime_yaml Y data (cfg_data_key c) = Inr (Some doc)
        \<and> cms w' (cm_key c) = Some data' \<and> parse_runtime_yaml Y data' (cfg_data_key c) = Inr (Some (apply_doc (cfg_ooo_window c) ts doc))
        \<and> (\<forall>x. x \<noteq> cfg_data_key c \<longrightarrow> data' x = data x) \<and> (\<forall>n. n \<noteq> cm_key c \<longrightarrow> cms w' n = cms w n))"
proof -
  obtain g w1 where g: "get_doc Y k8s c cx w = (g, w1)" by fastforce
  consider f where "g = Inl f" | "g = Inr None" | doc where "g = Inr (Some doc)" by (cases g) auto
  then show ?thesis
  proof cases
    case 1
    then show ?thesis
      using mimir_store.get_doc_err [OF assms(1) g [unfolded 1]] g assms(2) by (auto simp: apply_overrides_def)
  next
    case 2
    then show ?thesis
      using mimir_store.get_doc_ok [OF assms(1) g [unfolded 2]] g assms(2) by (auto simp: apply_overrides_def)
  next
    case 3
    from mimir_store.get_doc_ok [OF assms(1) g [unfolded 3]] obtain data where
      d: "cms w (cm_key c) = Some data" "parse_runtime_yaml Y data (cfg_data_key c) = Inr (Some doc)" "cms w1 = cms w" by blast
    have "patch_configmap Y k8s c cx (apply_doc (cfg_ooo_window c) ts doc) w1 = (res, w')"
      using assms(2) g 3 by (simp add: apply_overrides_def)
    from mimir_store.patch_outcome [OF assms(1) d(1,3) this] d(1,2) show ?thesis by auto
  qed
qed

text \<open>
  C13. \<^verbatim>\<open>ApplyOverrides\<close> on the ConfigMap: if it succeeds, the data key decodes to the applied document,
  and every other data key and every other ConfigMap is as before; if it fails or panics, the
  cluster is unchanged or the whole document was applied, never part of it.
\<close>

theorem apply_overrides_correct:
  assumes "mimir_store Y k8s cms c" "apply_overrides Y k8s c cx ts w = (res, w')"
  shows "(res \<noteq> Inr () \<and> cms w' = cms w)
    \<or> (\<exists>data doc data'. cms w (cm_key c) = Some data \<and> parse_runtime_yaml Y data (cfg_data_key c) = Inr (Some doc)
        \<and> cms w' (cm_key c) = Some data' \<and> parse_runtime_yaml Y data' (cfg_data_key c) = Inr (Some (apply_doc (cfg_ooo_window c) ts doc))
        \<and> (\<forall>x. x \<noteq> cfg_data_key c \<longrightarrow> data' x = data x) \<and> (\<forall>n. n \<noteq> cm_key c \<longrightarrow> cms w' n = cms w n))"
  using assms by (rule apply_overrides_effect)

text \<open>
  \<^verbatim>\<open>RevertOverrides\<close> on the ConfigMap: like apply it writes the whole reverted document or nothing, and
  touches no other data key and no other ConfigMap; a null document is reverted to an empty one.
\<close>

theorem revert_overrides_correct:
  assumes "mimir_store Y k8s cms c" "revert_overrides Y k8s c cx ts w = (res, w')"
  shows "(res \<noteq> Inr () \<and> cms w' = cms w)
    \<or> (\<exists>data d data'. cms w (cm_key c) = Some data \<and> parse_runtime_yaml Y data (cfg_data_key c) = Inr d
        \<and> cms w' (cm_key c) = Some data'
        \<and> parse_runtime_yaml Y data' (cfg_data_key c) = Inr (Some (revert_doc ts (case d of None \<Rightarrow> fmempty | Some doc \<Rightarrow> doc)))
        \<and> (\<forall>x. x \<noteq> cfg_data_key c \<longrightarrow> data' x = data x) \<and> (\<forall>n. n \<noteq> cm_key c \<longrightarrow> cms w' n = cms w n))"
proof -
  obtain g w1 where g: "get_doc Y k8s c cx w = (g, w1)" by fastforce
  show ?thesis
  proof (cases g)
    case (Inl f)
    then show ?thesis
      using mimir_store.get_doc_err [OF assms(1) g [unfolded Inl]] g assms(2) by (auto simp: revert_overrides_def)
  next
    case (Inr d)
    from mimir_store.get_doc_ok [OF assms(1) g [unfolded Inr]] obtain data where
      p: "cms w (cm_key c) = Some data" "parse_runtime_yaml Y data (cfg_data_key c) = Inr d" "cms w1 = cms w" by blast
    have "patch_configmap Y k8s c cx (revert_doc ts (case d of None \<Rightarrow> fmempty | Some doc \<Rightarrow> doc)) w1 = (res, w')"
      using assms(2) g Inr by (simp add: revert_overrides_def)
    from mimir_store.patch_outcome [OF assms(1) p(1,3) this] p(1,2) show ?thesis by auto
  qed
qed

lemma ex_enc:
  "yaml_enc ex_yaml (apply_doc ''2880h'' [''a''] fmempty) = Inr ''A''"
  "yaml_enc ex_yaml (apply_doc ''2880h'' [''b''] fmempty) = Inr ''B''"
proof -
  have ne: "apply_doc ''2880h'' ts fmempty \<noteq> fmempty" for ts
    by (metis apply_doc_def fmempty_lookup fmupd_lookup option.distinct(1) put_overrides_def)
  have "setting (apply_doc ''2880h'' [''b''] fmempty) ''a'' key_ooo \<noteq> setting (apply_doc ''2880h'' [''a''] fmempty) ''a'' key_ooo"
    by (simp add: setting_apply managed_def) (simp add: setting_def extract_overrides_def)
  then have "apply_doc ''2880h'' [''b''] fmempty \<noteq> apply_doc ''2880h'' [''a''] fmempty" by metis
  with ne show "yaml_enc ex_yaml (apply_doc ''2880h'' [''a''] fmempty) = Inr ''A''"
    "yaml_enc ex_yaml (apply_doc ''2880h'' [''b''] fmempty) = Inr ''B''"
    by (auto simp: ex_yaml_def ex_docs_def)
qed

lemma ex_get_doc: "get_doc ex_yaml mem_k8s ex_mimir cx ex_cluster = (Inr (Some fmempty), ex_cluster)"
  by (simp add: get_doc_def mem_k8s_def ex_cluster_def parse_runtime_yaml_def)

lemma ex_patch:
  assumes "yaml_enc ex_yaml doc = Inr s" "M (cm_key ex_mimir) \<noteq> None"
  shows "patch_configmap ex_yaml mem_k8s ex_mimir cx doc M = (Inr (), merge_patch (cm_key ex_mimir) ''runtime.yaml'' s M)"
proof -
  have "parse_all (print_json (patch_body ''runtime.yaml'' s)) = Some (patch_body ''runtime.yaml'' s)"
    using ex_store.parse_patch [of s] ex_store.dec_enc [OF assms(1)] by simp
  with assms show ?thesis by (simp add: patch_configmap_def mem_k8s_def cm_key_def patch_body_def)
qed

theorem apply_overrides_correct_witness:
  "\<exists>w'. apply_overrides ex_yaml mem_k8s ex_mimir Live [''a''] ex_cluster = (Inr (), w')
    \<and> (\<exists>data'. w' (cm_key ex_mimir) = Some data' \<and> data' ''other.txt'' = Some ''x'')"
proof -
  have run: "apply_overrides ex_yaml mem_k8s ex_mimir Live [''a''] ex_cluster
      = (Inr (), merge_patch (cm_key ex_mimir) ''runtime.yaml'' ''A'' ex_cluster)"
    by (simp add: apply_overrides_def ex_get_doc) (rule ex_patch, auto simp: ex_enc ex_cluster_def cm_key_def)
  from apply_overrides_correct [OF ex_store.mimir_store_axioms run] run show ?thesis
    by (auto simp: ex_cluster_def cm_key_def)
qed

text \<open>
  \<^verbatim>\<open>ApplyOverrides\<close> reads, computes and patches without a precondition on what it read: when two
  requests both read before either writes, the overrides of the first writer are gone although
  both requests succeeded, so its tenants migrate without them.
\<close>

theorem concurrent_apply_loses_update:
  assumes "mimir_store Y k8s cms c" "get_doc Y k8s c cx w = (Inr (Some doc), w1)" "get_doc Y k8s c cy w1 = (Inr (Some doc'), w2)"
    and "patch_configmap Y k8s c cx (apply_doc (cfg_ooo_window c) ts doc) w2 = (Inr (), w3)"
    and "patch_configmap Y k8s c cy (apply_doc (cfg_ooo_window c) us doc') w3 = (Inr (), w4)"
  shows "\<exists>data. cms w4 (cm_key c) = Some data \<and> parse_runtime_yaml Y data (cfg_data_key c) = Inr (Some (apply_doc (cfg_ooo_window c) us doc))
    \<and> (\<forall>t k. t \<in> set ts - set us \<longrightarrow> setting (apply_doc (cfg_ooo_window c) us doc) t k = setting doc t k)"
proof -
  note get = mimir_store.get_doc_ok [OF assms(1)] and patch = mimir_store.patch_configmap_effect [OF assms(1)]
  from get [OF assms(2)] get [OF assms(3)] obtain data where
    d: "cms w (cm_key c) = Some data" "cms w2 = cms w" and same: "doc' = doc" by fastforce
  from patch [OF assms(4)] obtain s where "cms w3 = merge_patch (cm_key c) (cfg_data_key c) s (cms w2)" by auto
  with d obtain data3 where d3: "cms w3 (cm_key c) = Some data3" by (auto simp: merge_patch_def)
  from patch [OF assms(5)] obtain s' where "yaml_enc Y (apply_doc (cfg_ooo_window c) us doc) = Inr s'"
    "cms w4 = merge_patch (cm_key c) (cfg_data_key c) s' (cms w3)" by (auto simp: same)
  with mimir_store.merge_patch_decodes [OF assms(1) this(1), of "cms w3", OF d3] show ?thesis
    by (auto simp: setting_apply split: option.splits)
qed

theorem concurrent_apply_loses_update_witness:
  "\<exists>w4 data. patch_configmap ex_yaml mem_k8s ex_mimir Live (apply_doc ''2880h'' [''b''] fmempty)
       (merge_patch (cm_key ex_mimir) ''runtime.yaml'' ''A'' ex_cluster) = (Inr (), w4)
     \<and> w4 (cm_key ex_mimir) = Some data
     \<and> parse_runtime_yaml ex_yaml data ''runtime.yaml'' = Inr (Some (apply_doc ''2880h'' [''b''] fmempty))"
proof -
  let ?M = "merge_patch (cm_key ex_mimir) ''runtime.yaml'' ''A'' ex_cluster"
  have p1: "patch_configmap ex_yaml mem_k8s ex_mimir Live (apply_doc ''2880h'' [''a''] fmempty) ex_cluster = (Inr (), ?M)"
    by (rule ex_patch) (auto simp: ex_enc ex_cluster_def cm_key_def)
  have p2: "patch_configmap ex_yaml mem_k8s ex_mimir Live (apply_doc ''2880h'' [''b''] fmempty) ?M
      = (Inr (), merge_patch (cm_key ex_mimir) ''runtime.yaml'' ''B'' ?M)"
    by (rule ex_patch) (auto simp: ex_enc ex_cluster_def cm_key_def merge_patch_def)
  from concurrent_apply_loses_update [OF ex_store.mimir_store_axioms ex_get_doc ex_get_doc, of Live "[''a'']" ?M Live "[''b'']"]
    p1 p2 show ?thesis by simp blast
qed

end
