(* ===== verification/Api.thy ===== *)
theory Api
  imports Complex_Main Handler Mimirconfig
begin

text \<open>
  The HTTP API (\<^verbatim>\<open>internal/api/handlers.go\<close> and \<^verbatim>\<open>server.go\<close>): the four handlers on the state they touch
  (the override applier, the asynq queue, the progress store), the routes and the defaults of
  \<^verbatim>\<open>NewServer\<close>. A response is its status and the value that \<^verbatim>\<open>writeJSON\<close> encodes. The asynq client
  and inspector are parameters.
\<close>

section \<open>The outside\<close>

record task_info =
  ti_id :: string
  ti_payload :: string

datatype task_state = TPending | TActive | TScheduled | TRetry | TArchived | TCompleted

datatype task_option = MaxRetry nat | Timeout int | Queue string

record ('q, 'k) deps =
  dp_enqueue :: "asynq_task \<Rightarrow> task_option list \<Rightarrow> ('q, task_info) call"
  dp_apply :: "ctx \<Rightarrow> string list \<Rightarrow> 'k \<Rightarrow> (fault + unit) \<times> 'k"
  dp_list :: "task_state \<Rightarrow> string \<Rightarrow> ('q, task_info list) call"
  dp_delete :: "string \<Rightarrow> string \<Rightarrow> ('q, unit) call"
  dp_cancel :: "string \<Rightarrow> ('q, unit) call"
  dp_not_found :: goerr

record ('w, 'q, 'k) server_config =
  sc_deps :: "('q, 'k) deps"
  sc_redis :: "'w redis_client"
  sc_tsdb_path :: string
  sc_cortex_url :: string
  sc_max_batch_bytes :: int
  sc_writer_concurrency :: int
  sc_dry_run :: bool

text \<open>The calls that \<^verbatim>\<open>POST /migrate\<close> makes; \<open>aw_calls\<close> records them in the order in which they are made.\<close>

datatype api_call = CallApply "string list" | CallEnqueue asynq_task "task_option list" | CallUpdate string fields

record ('w, 'q, 'k) aworld =
  aw_redis :: 'w
  aw_queue :: 'q
  aw_k8s :: 'k
  aw_calls :: "api_call list"

section \<open>Responses\<close>

record status_item =
  si_progress :: task_progress
  si_eta :: "real option"

record status_response =
  sr_tasks :: "status_item list"
  sr_total :: nat
  sr_completed :: nat
  sr_active :: nat
  sr_pending :: nat
  sr_failed :: nat

record delete_tasks_response =
  dr_deleted_progress :: nat
  dr_deleted_tasks :: nat
  dr_project_id :: string
  dr_all :: bool

datatype body =
    ErrorBody string
  | MigrateBody "(string \<times> string) list"
  | StatusBody status_response
  | TaskBody task_progress
  | DeleteBody delete_tasks_response
  | TextBody string

text \<open>A panic in a handler is caught by \<^verbatim>\<open>net/http\<close>, which drops the connection.\<close>

datatype reply = Reply nat body | NoReply string

section \<open>The request body of POST /migrate\<close>

text \<open>
  Decoding an array into a \<^verbatim>\<open>[]string\<close>: an element is decoded over what the slice's backing array holds
  at its index, which a \<^verbatim>\<open>null\<close> leaves as it is.
\<close>

fun decode_elems :: "json list \<Rightarrow> string list \<Rightarrow> string list \<times> bool" where
  "decode_elems [] backing = ([], True)"
| "decode_elems (v # vs) backing =
     (let (s, ok) = decode_string v (case backing of [] \<Rightarrow> '''' | x # _ \<Rightarrow> x);
          (ss, oks) = decode_elems vs (tl backing)
      in (s # ss, ok \<and> oks))"

text \<open>The slice is its backing array and its length.\<close>

definition decode_slice :: "json \<Rightarrow> string list \<times> nat \<Rightarrow> (string list \<times> nat) \<times> bool" where
  "decode_slice v old = (case v of
     JNull \<Rightarrow> (([], 0), True)
   | JArr [] \<Rightarrow> (([], 0), True)
   | JArr vs \<Rightarrow> (let (ss, ok) = decode_elems vs (fst old) in ((ss @ drop (length ss) (fst old), length ss), ok))
   | _ \<Rightarrow> (old, False))"

fun decode_request_members :: "(string \<times> json) list \<Rightarrow> string list \<times> nat \<Rightarrow> (string list \<times> nat) \<times> bool" where
  "decode_request_members [] sl = (sl, True)"
| "decode_request_members ((k, v) # ms) sl =
     (let (sl', ok) = (case field_of [''project_ids''] k of None \<Rightarrow> (sl, True) | Some _ \<Rightarrow> decode_slice v sl);
          (sl'', oks) = decode_request_members ms sl'
      in (sl'', ok \<and> oks))"

definition decode_migrate_request :: "string \<Rightarrow> goerr + string list" where
  "decode_migrate_request b = (case parse_first b of
     Some (JObj ms) \<Rightarrow> (let (sl, ok) = decode_request_members ms ([], 0) in if ok then Inr (take (snd sl) (fst sl)) else Inl json_err)
   | Some JNull \<Rightarrow> Inr []
   | _ \<Rightarrow> Inl json_err)"

section \<open>POST /migrate\<close>

definition request_payload :: "('w, 'q, 'k) server_config \<Rightarrow> string \<Rightarrow> migrate_payload" where
  "request_payload cfg pid =
     \<lparr>mp_project_id = pid, mp_tsdb_path = sc_tsdb_path cfg, mp_cortex_url = sc_cortex_url cfg,
      mp_max_batch_bytes = sc_max_batch_bytes cfg, mp_writer_concurrency = sc_writer_concurrency cfg,
      mp_dry_run = sc_dry_run cfg\<rparr>"

definition task_options :: "task_option list" where
  "task_options = [MaxRetry 3, Timeout (6 * 3600 * 1000000000), Queue ''migration'']"

definition fault_text :: "fault \<Rightarrow> string" where
  "fault_text f = (case f of Err e \<Rightarrow> err_text e | Panic s \<Rightarrow> s)"

text \<open>One call each of the applier, the asynq client and the progress store.\<close>

definition call_apply :: "('w, 'q, 'k) server_config \<Rightarrow> ctx \<Rightarrow> string list \<Rightarrow> ('w, 'q, 'k) aworld \<Rightarrow> (fault + unit) \<times> ('w, 'q, 'k) aworld" where
  "call_apply cfg c pids w = (case dp_apply (sc_deps cfg) c pids (aw_k8s w) of
     (x, k) \<Rightarrow> (x, w\<lparr>aw_k8s := k, aw_calls := aw_calls w @ [CallApply pids]\<rparr>))"

definition call_enqueue ::
  "('w, 'q, 'k) server_config \<Rightarrow> asynq_task \<Rightarrow> task_option list \<Rightarrow> ('w, 'q, 'k) aworld \<Rightarrow> (goerr + task_info) \<times> ('w, 'q, 'k) aworld" where
  "call_enqueue cfg t opts w = (case dp_enqueue (sc_deps cfg) t opts (aw_queue w) of
     (x, q) \<Rightarrow> (x, w\<lparr>aw_queue := q, aw_calls := aw_calls w @ [CallEnqueue t opts]\<rparr>))"

definition call_update :: "('w, 'q, 'k) server_config \<Rightarrow> ctx \<Rightarrow> string \<Rightarrow> fields \<Rightarrow> ('w, 'q, 'k) aworld \<Rightarrow> ('w, 'q, 'k) aworld" where
  "call_update cfg c i fs w = (case progress_update (sc_redis cfg) c i fs (aw_redis w) of
     (_, rd) \<Rightarrow> w\<lparr>aw_redis := rd, aw_calls := aw_calls w @ [CallUpdate i fs]\<rparr>)"

fun enqueue_loop ::
  "('w, 'q, 'k) server_config \<Rightarrow> ctx \<Rightarrow> string list \<Rightarrow> (string \<times> string) list \<Rightarrow> ('w, 'q, 'k) aworld \<Rightarrow> reply \<times> ('w, 'q, 'k) aworld" where
  "enqueue_loop cfg c [] acc w = (Reply 200 (MigrateBody acc), w)"
| "enqueue_loop cfg c (pid # pids) acc w =
     (case call_enqueue cfg (new_migrate_task (request_payload cfg pid)) task_options w of
        (Inl e, w1) \<Rightarrow> (Reply 500 (ErrorBody (''failed to enqueue task for '' @ pid)), w1)
      | (Inr info, w1) \<Rightarrow>
          enqueue_loop cfg c pids (acc @ [(ti_id info, pid)])
            (call_update cfg c (ti_id info) [(''project_id'', pid), (''state'', ''pending'')] w1))"

definition handle_migrate :: "('w, 'q, 'k) server_config \<Rightarrow> ctx \<Rightarrow> string \<Rightarrow> ('w, 'q, 'k) aworld \<Rightarrow> reply \<times> ('w, 'q, 'k) aworld" where
  "handle_migrate cfg c b w = (case decode_migrate_request b of
     Inl _ \<Rightarrow> (Reply 400 (ErrorBody ''invalid JSON body''), w)
   | Inr pids \<Rightarrow>
       if length pids = 0 then (Reply 400 (ErrorBody ''project_ids must be a non-empty array''), w)
       else (case call_apply cfg c pids w of
               (Inl (Panic s), w1) \<Rightarrow> (NoReply s, w1)
             | (Inl (Err e), w1) \<Rightarrow> (Reply 500 (ErrorBody (''failed to apply mimir overrides: '' @ err_text e)), w1)
             | (Inr _, w1) \<Rightarrow> enqueue_loop cfg c pids [] w1))"

section \<open>GET /status and GET /status/{task\_id}\<close>

text \<open>\<^verbatim>\<open>Time.Sub\<close> saturates; the estimate is over the reals, where the code uses \<^verbatim>\<open>float64\<close>.\<close>

definition time_sub :: "gotime \<Rightarrow> gotime \<Rightarrow> int" where
  "time_sub a b = max min_int64 (min max_int64 (a - b))"

definition eta_of :: "gotime \<Rightarrow> task_progress \<Rightarrow> real option" where
  "eta_of now t =
     (if tp_state t = ''active'' \<and> tp_samples_read t > 100 \<and> tp_started_at t \<noteq> 0
      then (let elapsed = real_of_int (time_sub now (tp_started_at t)) / 1000000000
            in if elapsed > 0
               then (let rate = real_of_int (tp_samples_read t) / elapsed;
                         remaining = real_of_int (tp_samples_read t) * 0.1
                     in Some (max 0 (remaining / rate)))
               else None)
      else None)"

definition bump :: "task_progress \<Rightarrow> status_response \<Rightarrow> status_response" where
  "bump t r =
     (if tp_state t = ''completed'' then r\<lparr>sr_completed := sr_completed r + 1\<rparr>
      else if tp_state t = ''active'' then r\<lparr>sr_active := sr_active r + 1\<rparr>
      else if tp_state t = ''pending'' then r\<lparr>sr_pending := sr_pending r + 1\<rparr>
      else if tp_state t = ''failed'' then r\<lparr>sr_failed := sr_failed r + 1\<rparr>
      else r)"

fun status_loop :: "gotime \<Rightarrow> task_progress list \<Rightarrow> status_response \<Rightarrow> status_response" where
  "status_loop now [] r = r"
| "status_loop now (t # ts) r =
     status_loop now ts (bump t (r\<lparr>sr_tasks := sr_tasks r @ [\<lparr>si_progress = t, si_eta = eta_of now t\<rparr>]\<rparr>))"

definition empty_status :: status_response where
  "empty_status = \<lparr>sr_tasks = [], sr_total = 0, sr_completed = 0, sr_active = 0, sr_pending = 0, sr_failed = 0\<rparr>"

definition handle_status ::
  "(string \<Rightarrow> gotime option) \<Rightarrow> ('w, 'q, 'k) server_config \<Rightarrow> ctx \<Rightarrow> gotime \<Rightarrow> ('w, 'q, 'k) aworld \<Rightarrow> (reply \<times> ('w, 'q, 'k) aworld) option" where
  "handle_status pt cfg c now w =
     map_option (\<lambda>(res, rd).
       (case res of
          Inl _ \<Rightarrow> Reply 500 (ErrorBody ''failed to list progress'')
        | Inr tasks \<Rightarrow> Reply 200 (StatusBody ((status_loop now tasks empty_status)\<lparr>sr_total := length tasks\<rparr>)),
        w\<lparr>aw_redis := rd\<rparr>))
       (progress_list pt (sc_redis cfg) c (aw_redis w))"

definition handle_task_status ::
  "(string \<Rightarrow> gotime option) \<Rightarrow> ('w, 'q, 'k) server_config \<Rightarrow> ctx \<Rightarrow> string \<Rightarrow> ('w, 'q, 'k) aworld \<Rightarrow> reply \<times> ('w, 'q, 'k) aworld" where
  "handle_task_status pt cfg c taskID w =
     (if taskID = '''' then (Reply 400 (ErrorBody ''task_id is required''), w)
      else case progress_get pt (sc_redis cfg) c taskID (aw_redis w) of
        (Inl _, rd) \<Rightarrow> (Reply 500 (ErrorBody ''failed to get progress''), w\<lparr>aw_redis := rd\<rparr>)
      | (Inr p, rd) \<Rightarrow>
          if tp_state p = '''' then (Reply 404 (ErrorBody ''task not found''), w\<lparr>aw_redis := rd\<rparr>)
          else (Reply 200 (TaskBody p), w\<lparr>aw_redis := rd\<rparr>))"

section \<open>DELETE /tasks\<close>

definition list_states :: "(string \<times> task_state) list" where
  "list_states = [(''pending'', TPending), (''active'', TActive), (''scheduled'', TScheduled), (''retry'', TRetry),
     (''archived'', TArchived), (''completed'', TCompleted)]"

definition is_target :: "bool \<Rightarrow> string \<Rightarrow> task_info \<Rightarrow> bool" where
  "is_target allTrue projectID info =
     (allTrue \<or> (case unmarshal_payload (ti_payload info) of Inl _ \<Rightarrow> False | Inr p \<Rightarrow> mp_project_id p = projectID))"

text \<open>The targets with the state they were last listed in.\<close>

fun list_targets ::
  "('q, 'k) deps \<Rightarrow> bool \<Rightarrow> string \<Rightarrow> (string \<times> task_state) list \<Rightarrow> string list \<Rightarrow> (string \<rightharpoonup> task_state) \<Rightarrow> 'q
     \<Rightarrow> (string + string list \<times> (string \<rightharpoonup> task_state)) \<times> 'q" where
  "list_targets d allTrue projectID [] ids st q = (Inr (ids, st), q)"
| "list_targets d allTrue projectID ((name, s) # lfs) ids st q =
     (case dp_list d s ''migration'' q of
        (Inl e, q') \<Rightarrow> (Inl (''failed to list '' @ name @ '' tasks: '' @ err_text e), q')
      | (Inr infos, q') \<Rightarrow>
          (let new = map ti_id (filter (is_target allTrue projectID) infos)
           in list_targets d allTrue projectID lfs (ids @ new) (st ++ map_of (map (\<lambda>i. (i, s)) new)) q'))"

fun cancel_loop :: "('q, 'k) deps \<Rightarrow> (string \<rightharpoonup> task_state) \<Rightarrow> string list \<Rightarrow> 'q \<Rightarrow> 'q" where
  "cancel_loop d st [] q = q"
| "cancel_loop d st (i # ids) q =
     (if st i = Some TActive then cancel_loop d st ids (snd (dp_cancel d i q)) else cancel_loop d st ids q)"

fun delete_tasks_loop :: "('q, 'k) deps \<Rightarrow> string list \<Rightarrow> nat \<Rightarrow> 'q \<Rightarrow> nat \<times> 'q" where
  "delete_tasks_loop d [] n q = (n, q)"
| "delete_tasks_loop d (i # ids) n q =
     (case dp_delete d ''migration'' i q of
        (Inl e, q') \<Rightarrow> delete_tasks_loop d ids (if errors_is e (dp_not_found d) then n + 1 else n) q'
      | (Inr _, q') \<Rightarrow> delete_tasks_loop d ids (n + 1) q')"

definition handle_delete_tasks ::
  "('w, 'q, 'k) server_config \<Rightarrow> ctx \<Rightarrow> string \<Rightarrow> string \<Rightarrow> ('w, 'q, 'k) aworld \<Rightarrow> (reply \<times> ('w, 'q, 'k) aworld) option" where
  "handle_delete_tasks cfg c projectID allParam w =
     (let allTrue = (allParam = ''true'') in
      if projectID = '''' \<and> \<not> allTrue then Some (Reply 400 (ErrorBody ''either project_id or all=true is required''), w)
      else if projectID \<noteq> '''' \<and> allTrue then Some (Reply 400 (ErrorBody ''project_id and all=true are mutually exclusive''), w)
      else case list_targets (sc_deps cfg) allTrue projectID list_states [] Map.empty (aw_queue w) of
        (Inl msg, q) \<Rightarrow> Some (Reply 500 (ErrorBody msg), w\<lparr>aw_queue := q\<rparr>)
      | (Inr (ids, st), q) \<Rightarrow>
          (let q1 = cancel_loop (sc_deps cfg) st ids q;
               (deletedTasks, q2) = delete_tasks_loop (sc_deps cfg) ids 0 q1;
               del = (if allTrue then progress_delete_all (sc_redis cfg) c (aw_redis w)
                      else Some (progress_delete (sc_redis cfg) c ids (aw_redis w)))
           in map_option (\<lambda>((n, eo), rd).
                (case eo of
                   Some e \<Rightarrow> Reply 500 (ErrorBody (''progress delete failed: '' @ err_text e))
                 | None \<Rightarrow> Reply 200 (DeleteBody \<lparr>dr_deleted_progress = n, dr_deleted_tasks = deletedTasks,
                                           dr_project_id = projectID, dr_all = allTrue\<rparr>),
                 w\<lparr>aw_queue := q2, aw_redis := rd\<rparr>)) del))"

section \<open>NewServer\<close>

definition noop_list :: "task_state \<Rightarrow> string \<Rightarrow> ('q, task_info list) call" where
  "noop_list s qname q = (Inr [], q)"

definition noop_task_call :: "('q, unit) call" where
  "noop_task_call q = (Inr (), q)"

text \<open>The nil dependencies of a \<^verbatim>\<open>ServerConfig\<close> and what \<^verbatim>\<open>NewServer\<close> puts in their place.\<close>

record ('q, 'k) maybe_deps =
  md_applier :: "(ctx \<Rightarrow> string list \<Rightarrow> 'k \<Rightarrow> (fault + unit) \<times> 'k) option"
  md_inspector :: "('q, 'k) deps option"
  md_ready :: "(unit \<Rightarrow> bool) option"

definition new_server_deps :: "('q, 'k) deps \<Rightarrow> ('q, 'k) maybe_deps \<Rightarrow> ('q, 'k) deps" where
  "new_server_deps base m =
     (case md_inspector m of
        None \<Rightarrow> base\<lparr>dp_list := noop_list, dp_delete := (\<lambda>_ _. noop_task_call), dp_cancel := (\<lambda>_. noop_task_call)\<rparr>
      | Some i \<Rightarrow> base\<lparr>dp_list := dp_list i, dp_delete := dp_delete i, dp_cancel := dp_cancel i\<rparr>)
     \<lparr>dp_apply := (case md_applier m of None \<Rightarrow> noop_apply_overrides | Some a \<Rightarrow> a)\<rparr>"

definition handle_readyz :: "('q, 'k) maybe_deps \<Rightarrow> reply" where
  "handle_readyz m = (if (case md_ready m of None \<Rightarrow> True | Some f \<Rightarrow> f ()) then Reply 200 (TextBody ''ready'')
     else Reply 503 (TextBody ''not ready''))"

definition handle_healthz :: reply where
  "handle_healthz = Reply 200 (TextBody ''ok'')"

datatype endpoint = Healthz | Readyz | Migrate | Status | TaskStatus string | DeleteTasks | NotFound | MethodNotAllowed

text \<open>
  The routes of the mux on a clean path: \<^verbatim>\<open>GET\<close> patterns also match \<^verbatim>\<open>HEAD\<close>, the wildcard matches one
  non-empty segment, a path known under another method is answered 405.
\<close>

definition is_get :: "string \<Rightarrow> bool" where
  "is_get meth \<longleftrightarrow> meth = ''GET'' \<or> meth = ''HEAD''"

definition route :: "string \<Rightarrow> string \<Rightarrow> endpoint" where
  "route meth pth =
     (if pth = ''/healthz'' then (if is_get meth then Healthz else MethodNotAllowed)
      else if pth = ''/readyz'' then (if is_get meth then Readyz else MethodNotAllowed)
      else if pth = ''/migrate'' then (if meth = ''POST'' then Migrate else MethodNotAllowed)
      else if pth = ''/status'' then (if is_get meth then Status else MethodNotAllowed)
      else if pth = ''/tasks'' then (if meth = ''DELETE'' then DeleteTasks else MethodNotAllowed)
      else if prefix ''/status/'' pth \<and> drop 8 pth \<noteq> '''' \<and> CHR ''/'' \<notin> set (drop 8 pth)
           then (if is_get meth then TaskStatus (drop 8 pth) else MethodNotAllowed)
      else NotFound)"

end
