(* ===== verification/Api_Correct.thy ===== *)
theory Api_Correct
  imports Api
begin

text \<open>
  The properties of the API: what a migrate request has done for each answer it gives, what the
  status page counts, what a deletion can remove, and two interleavings with the worker.
\<close>

section \<open>POST /migrate\<close>

text \<open>
  What the handler relies on of the asynq client: a task whose enqueueing succeeded is in the queue
  under the returned id; one whose enqueueing failed may be in it or not.
\<close>

locale enqueuer =
  fixes enq :: "asynq_task \<Rightarrow> task_option list \<Rightarrow> ('q, task_info) call" and tasks :: "'q \<Rightarrow> (string \<times> asynq_task) list"
  assumes enq_ok: "enq t opts q = (Inr info, q') \<Longrightarrow> tasks q' = tasks q @ [(ti_id info, t)]"
    and enq_err: "enq t opts q = (Inl e, q') \<Longrightarrow> tasks q' = tasks q \<or> (\<exists>i. tasks q' = tasks q @ [(i, t)])"

definition task_for :: "('w, 'q, 'k) server_config \<Rightarrow> string \<times> string \<Rightarrow> string \<times> asynq_task" where
  "task_for cfg r = (fst r, new_migrate_task (request_payload cfg (snd r)))"

text \<open>The calls that enqueue one tenant: the task, then its pending state under the id it got.\<close>

definition enqueue_calls :: "('w, 'q, 'k) server_config \<Rightarrow> string \<times> string \<Rightarrow> api_call list" where
  "enqueue_calls cfg r = [CallEnqueue (new_migrate_task (request_payload cfg (snd r))) task_options,
     CallUpdate (fst r) [(''project_id'', snd r), (''state'', ''pending'')]]"

lemma call_update_simps [simp]:
  "aw_queue (call_update cfg c i fs w) = aw_queue w" "aw_k8s (call_update cfg c i fs w) = aw_k8s w"
  "aw_calls (call_update cfg c i fs w) = aw_calls w @ [CallUpdate i fs]"
  by (simp_all add: call_update_def split: prod.splits)

lemma call_enqueue_effect:
  assumes "call_enqueue cfg t opts w = (x, w')"
  shows "dp_enqueue (sc_deps cfg) t opts (aw_queue w) = (x, aw_queue w')" "aw_k8s w' = aw_k8s w"
    "aw_calls w' = aw_calls w @ [CallEnqueue t opts]"
  using assms by (auto simp: call_enqueue_def split: prod.splits)

lemma enqueue_loop_effect:
  assumes "enqueuer (dp_enqueue (sc_deps cfg)) tasks" "enqueue_loop cfg c pids acc w = (r, w')"
  shows "aw_k8s w' = aw_k8s w \<and> (\<exists>refs. map snd refs = take (length refs) pids
     \<and> (r = Reply 200 (MigrateBody (acc @ refs)) \<and> length refs = length pids \<and> tasks (aw_queue w') = tasks (aw_queue w) @ map (task_for cfg) refs
          \<and> aw_calls w' = aw_calls w @ concat (map (enqueue_calls cfg) refs)
        \<or> (length refs < length pids \<and> r = Reply 500 (ErrorBody (''failed to enqueue task for '' @ pids ! length refs))
           \<and> (\<exists>more. length more \<le> 1 \<and> tasks (aw_queue w') = tasks (aw_queue w) @ map (task_for cfg) refs @ more))))"
  using assms(2)
proof (induction pids arbitrary: acc w)
  case (Cons pid pids)
  obtain x w1 where e: "call_enqueue cfg (new_migrate_task (request_payload cfg pid)) task_options w = (x, w1)" by fastforce
  note eff = call_enqueue_effect [OF e]
  show ?case
  proof (cases x)
    case (Inl err)
    with e Cons.prems have "w' = w1" "r = Reply 500 (ErrorBody (''failed to enqueue task for '' @ pid))" by auto
    moreover have "\<exists>more. length more \<le> 1 \<and> tasks (aw_queue w1) = tasks (aw_queue w) @ more"
      using enqueuer.enq_err [OF assms(1) eff(1) [unfolded Inl]] by (metis append_Nil2 le_numeral_extra(4) length_Cons list.size(3) One_nat_def zero_le_one)
    ultimately show ?thesis using eff(2) by (intro conjI exI [of _ "[]"]) auto
  next
    case (Inr info)
    note q = enqueuer.enq_ok [OF assms(1) eff(1) [unfolded Inr]]
    let ?w2 = "call_update cfg c (ti_id info) [(''project_id'', pid), (''state'', ''pending'')] w1"
    have "enqueue_loop cfg c pids (acc @ [(ti_id info, pid)]) ?w2 = (r, w')" using Cons.prems e Inr by simp
    from Cons.IH [OF this] obtain refs where IH: "aw_k8s w' = aw_k8s w1" "map snd refs = take (length refs) pids"
      "r = Reply 200 (MigrateBody (acc @ (ti_id info, pid) # refs)) \<and> length refs = length pids \<and> tasks (aw_queue w') = tasks (aw_queue w1) @ map (task_for cfg) refs
          \<and> aw_calls w' = aw_calls ?w2 @ concat (map (enqueue_calls cfg) refs)
        \<or> (length refs < length pids \<and> r = Reply 500 (ErrorBody (''failed to enqueue task for '' @ pids ! length refs))
           \<and> (\<exists>more. length more \<le> 1 \<and> tasks (aw_queue w') = tasks (aw_queue w1) @ map (task_for cfg) refs @ more))" by auto
    then show ?thesis
      using eff(2,3) by (intro conjI exI [of _ "(ti_id info, pid) # refs"]) (auto simp: q task_for_def enqueue_calls_def [of cfg "(ti_id info, pid)"])
  qed
qed simp

text \<open>A request that reached the loop: the body decoded, the overrides were applied, the rest is the loop.\<close>

lemma migrate_reaches_loop:
  assumes "handle_migrate cfg c b w = (Reply 200 bd, w')"
  shows "\<exists>pids u k. decode_migrate_request b = Inr pids \<and> pids \<noteq> [] \<and> dp_apply (sc_deps cfg) c pids (aw_k8s w) = (Inr u, k)
    \<and> enqueue_loop cfg c pids [] (w\<lparr>aw_k8s := k, aw_calls := aw_calls w @ [CallApply pids]\<rparr>) = (Reply 200 bd, w')"
  using assms by (auto simp: handle_migrate_def call_apply_def split: sum.splits if_splits prod.splits fault.splits)

section \<open>A concrete server\<close>

record mem_queue =
  mq_tasks :: "(string \<times> asynq_task) list"
  mq_room :: nat

definition mem_enqueue :: "asynq_task \<Rightarrow> task_option list \<Rightarrow> (mem_queue, task_info) call" where
  "mem_enqueue t opts q =
     (if mq_room q = 0 then (Inl (errors_new ''redis: connection refused''), q)
      else (let i = ''task-'' @ itoa (int (length (mq_tasks q)))
            in (Inr \<lparr>ti_id = i, ti_payload = task_payload t\<rparr>, q\<lparr>mq_tasks := mq_tasks q @ [(i, t)], mq_room := mq_room q - 1\<rparr>)))"

interpretation mem_enq: enqueuer mem_enqueue mq_tasks
  by unfold_locales (auto simp: mem_enqueue_def Let_def split: if_splits)

text \<open>The tasks of the queue are all pending; a page holds 30 of them.\<close>

definition mem_list :: "task_state \<Rightarrow> string \<Rightarrow> (mem_queue, task_info list) call" where
  "mem_list s qname q =
     (Inr (if s = TPending then take 30 (map (\<lambda>(i, t). \<lparr>ti_id = i, ti_payload = task_payload t\<rparr>) (mq_tasks q)) else []), q)"

definition task_not_found :: goerr where "task_not_found = errors_new ''asynq: task not found''"

definition mem_delete :: "string \<Rightarrow> string \<Rightarrow> (mem_queue, unit) call" where
  "mem_delete qname i q =
     (if i \<in> fst ` set (mq_tasks q) then (Inr (), q\<lparr>mq_tasks := filter (\<lambda>x. fst x \<noteq> i) (mq_tasks q)\<rparr>)
      else (Inl task_not_found, q))"

definition mem_deps :: "(mem_queue, unit) deps" where
  "mem_deps = \<lparr>dp_enqueue = mem_enqueue, dp_apply = noop_apply_overrides, dp_list = mem_list, dp_delete = mem_delete,
     dp_cancel = (\<lambda>_. noop_task_call), dp_not_found = task_not_found\<rparr>"

definition ex_server :: "(mem_redis, mem_queue, unit) server_config" where
  "ex_server = \<lparr>sc_deps = mem_deps, sc_redis = mem_client, sc_tsdb_path = ''/data'', sc_cortex_url = ''http://c/push'',
     sc_max_batch_bytes = 0, sc_writer_concurrency = 0, sc_dry_run = False\<rparr>"

definition ex_aworld :: "nat \<Rightarrow> (mem_redis, mem_queue, unit) aworld" where
  "ex_aworld room = \<lparr>aw_redis = ex_redis, aw_queue = \<lparr>mq_tasks = [], mq_room = room\<rparr>, aw_k8s = (), aw_calls = []\<rparr>"

definition ex_body :: "string list \<Rightarrow> string" where
  "ex_body pids = print_json (JObj [(''project_ids'', JArr (map JStr pids))])"

lemma ex_body_decodes: "pids \<noteq> [] \<Longrightarrow> list_all valid_utf8 pids \<Longrightarrow> decode_migrate_request (ex_body pids) = Inr pids"
proof -
  assume ne: "pids \<noteq> []" and ok: "list_all valid_utf8 pids"
  have depth: "foldr max (map json_depth (map JStr pids)) 0 = 0" by (induction pids) auto
  have "parse_first (ex_body pids) = Some (JObj [(''project_ids'', JArr (map JStr pids))])"
    using parse_first_print [of "JObj [(''project_ids'', JArr (map JStr pids))]" "[]"] ok depth
    by (simp add: ex_body_def wire_eval max_nesting_def list_all_iff)
  moreover have "decode_elems (map JStr pids) [] = (pids, True)"
    by (induction pids) (auto simp: decode_string_def)
  ultimately show ?thesis
    using ne by (cases pids) (auto simp: decode_migrate_request_def field_of_def decode_slice_def decode_string_def Let_def)
qed

lemma ex_server_deps [simp]: "sc_deps ex_server = mem_deps" "dp_enqueue mem_deps = mem_enqueue" "dp_apply mem_deps = noop_apply_overrides"
  "sc_redis ex_server = mem_client"
  by (simp_all add: ex_server_def mem_deps_def)

lemma ab_decodes: "decode_migrate_request (ex_body [''a'', ''b'']) = Inr [''a'', ''b'']"
  by (rule ex_body_decodes) (simp_all add: wire_eval)

lemma ex_migrate_200: "\<exists>w'. handle_migrate ex_server Live (ex_body [''a'', ''b'']) (ex_aworld 2)
    = (Reply 200 (MigrateBody [(''task-'' @ itoa 0, ''a''), (''task-'' @ itoa 1, ''b'')]), w')"
  by (auto simp: handle_migrate_def call_apply_def call_enqueue_def call_update_def ab_decodes noop_apply_overrides_def mem_enqueue_def ex_aworld_def Let_def split: prod.splits)

lemma ex_migrate_500: "\<exists>w'. handle_migrate ex_server Live (ex_body [''a'', ''b'']) (ex_aworld 1)
    = (Reply 500 (ErrorBody ''failed to enqueue task for b''), w')"
  by (auto simp: handle_migrate_def call_apply_def call_enqueue_def call_update_def ab_decodes noop_apply_overrides_def mem_enqueue_def ex_aworld_def Let_def split: prod.splits)

section \<open>Properties of POST /migrate\<close>

text \<open>
  C20. A request that is not accepted changes nothing it should not: without a non-empty list of ids
  the answer is 400 and nothing at all has changed; when the overrides cannot be applied, no task
  is enqueued and no progress entry is written.
\<close>

theorem migrate_fails_fast:
  "(\<forall>e. decode_migrate_request b = Inl e \<longrightarrow> handle_migrate cfg c b w = (Reply 400 (ErrorBody ''invalid JSON body''), w))
   \<and> (decode_migrate_request b = Inr [] \<longrightarrow> handle_migrate cfg c b w = (Reply 400 (ErrorBody ''project_ids must be a non-empty array''), w))
   \<and> (\<forall>pids f k. decode_migrate_request b = Inr pids \<and> dp_apply (sc_deps cfg) c pids (aw_k8s w) = (Inl f, k) \<longrightarrow>
        aw_queue (snd (handle_migrate cfg c b w)) = aw_queue w \<and> aw_redis (snd (handle_migrate cfg c b w)) = aw_redis w
        \<and> (\<nexists>refs. fst (handle_migrate cfg c b w) = Reply 200 (MigrateBody refs)))"
  by (auto simp: handle_migrate_def call_apply_def split: fault.splits)

theorem migrate_fails_fast_witness:
  "decode_migrate_request (ex_body []) = Inr []
   \<and> handle_migrate ex_server Live (ex_body []) (ex_aworld 5) = (Reply 400 (ErrorBody ''project_ids must be a non-empty array''), ex_aworld 5)"
proof -
  have "parse_first (ex_body []) = Some (JObj [(''project_ids'', JArr [])])"
    using parse_first_print [of "JObj [(''project_ids'', JArr [])]" "[]"]
    by (simp add: ex_body_def wire_eval max_nesting_def)
  then have d: "decode_migrate_request (ex_body []) = Inr []"
    by (simp add: decode_migrate_request_def field_of_def decode_slice_def)
  with migrate_fails_fast [of "ex_body []" ex_server Live "ex_aworld 5"] show ?thesis by blast
qed

text \<open>
  C19. When the answer is 200, the overrides of exactly the requested tenants were applied before any task
  was enqueued; then each requested tenant, in order, was enqueued with the retry, timeout and queue
  options and marked pending under the id it got, and nothing else was called. One task per tenant, in order, is
  in the queue under the id the answer names.
\<close>

theorem migrate_200_enqueues_all:
  assumes "enqueuer (dp_enqueue (sc_deps cfg)) tasks" "handle_migrate cfg c b w = (Reply 200 bd, w')"
  shows "\<exists>pids refs u k. decode_migrate_request b = Inr pids \<and> pids \<noteq> [] \<and> dp_apply (sc_deps cfg) c pids (aw_k8s w) = (Inr u, k)
    \<and> aw_k8s w' = k \<and> bd = MigrateBody refs \<and> map snd refs = pids
    \<and> aw_calls w' = aw_calls w @ CallApply pids # concat (map (enqueue_calls cfg) refs)
    \<and> tasks (aw_queue w') = tasks (aw_queue w) @ map (task_for cfg) refs"
proof -
  obtain pids u k where d: "decode_migrate_request b = Inr pids" "pids \<noteq> []"
    "dp_apply (sc_deps cfg) c pids (aw_k8s w) = (Inr u, k)"
    "enqueue_loop cfg c pids [] (w\<lparr>aw_k8s := k, aw_calls := aw_calls w @ [CallApply pids]\<rparr>) = (Reply 200 bd, w')"
    using migrate_reaches_loop [OF assms(2)] by blast
  from enqueue_loop_effect [OF assms(1) d(4)] obtain refs where "aw_k8s w' = k" "map snd refs = take (length refs) pids"
    "bd = MigrateBody refs" "length refs = length pids" "tasks (aw_queue w') = tasks (aw_queue w) @ map (task_for cfg) refs"
    "aw_calls w' = aw_calls w @ CallApply pids # concat (map (enqueue_calls cfg) refs)"
    by auto
  with d(1-3) show ?thesis by auto
qed

theorem migrate_200_enqueues_all_witness:
  "\<exists>bd w'. handle_migrate ex_server Live (ex_body [''a'', ''b'']) (ex_aworld 2) = (Reply 200 bd, w')
    \<and> map snd (mq_tasks (aw_queue w')) = map (new_migrate_task \<circ> request_payload ex_server) [''a'', ''b'']
    \<and> hd (aw_calls w') = CallApply [''a'', ''b'']"
proof -
  obtain bd w' where r: "handle_migrate ex_server Live (ex_body [''a'', ''b'']) (ex_aworld 2) = (Reply 200 bd, w')"
    using ex_migrate_200 by blast
  from migrate_200_enqueues_all [OF _ r, of mq_tasks] mem_enq.enqueuer_axioms ab_decodes
  have "map snd (mq_tasks (aw_queue w')) = map (new_migrate_task \<circ> request_payload ex_server) [''a'', ''b'']
      \<and> hd (aw_calls w') = CallApply [''a'', ''b'']"
    by (auto simp: ex_aworld_def task_for_def)
  with r show ?thesis by blast
qed

text \<open>
  C21. When the queue fails part way, the answer is 500 but the tasks enqueued before the failure stay in
  the queue, and the overrides stay applied: the failing tenant is the first one that the queue
  refused, and the answer names only that one.
\<close>

theorem migrate_500_is_partial:
  assumes "enqueuer (dp_enqueue (sc_deps cfg)) tasks" "decode_migrate_request b = Inr pids" "pids \<noteq> []"
    and "dp_apply (sc_deps cfg) c pids (aw_k8s w) = (Inr u, k)" "handle_migrate cfg c b w = (Reply 500 bd, w')"
  shows "\<exists>refs more. length refs < length pids \<and> map snd refs = take (length refs) pids
    \<and> bd = ErrorBody (''failed to enqueue task for '' @ pids ! length refs) \<and> aw_k8s w' = k
    \<and> tasks (aw_queue w') = tasks (aw_queue w) @ map (task_for cfg) refs @ more \<and> length more \<le> 1"
proof -
  have "enqueue_loop cfg c pids [] (w\<lparr>aw_k8s := k, aw_calls := aw_calls w @ [CallApply pids]\<rparr>) = (Reply 500 bd, w')"
    using assms(2-5) by (auto simp: handle_migrate_def call_apply_def split: if_splits)
  from enqueue_loop_effect [OF assms(1) this] show ?thesis by auto
qed

theorem migrate_500_is_partial_witness:
  "\<exists>w'. handle_migrate ex_server Live (ex_body [''a'', ''b'']) (ex_aworld 1) = (Reply 500 (ErrorBody ''failed to enqueue task for b''), w')
    \<and> (\<exists>refs more. mq_tasks (aw_queue w') = map (task_for ex_server) refs @ more \<and> length refs < 2)"
proof -
  obtain w' where r: "handle_migrate ex_server Live (ex_body [''a'', ''b'']) (ex_aworld 1) = (Reply 500 (ErrorBody ''failed to enqueue task for b''), w')"
    using ex_migrate_500 by blast
  from migrate_500_is_partial [OF _ ab_decodes _ _ r, of mq_tasks "()" "()"] mem_enq.enqueuer_axioms r
  show ?thesis by (fastforce simp: ex_aworld_def noop_apply_overrides_def)
qed

section \<open>The status page\<close>

lemma status_loop_counts:
  "sr_tasks (status_loop now ts r) = sr_tasks r @ map (\<lambda>t. \<lparr>si_progress = t, si_eta = eta_of now t\<rparr>) ts"
  "sr_completed (status_loop now ts r) = sr_completed r + length (filter (\<lambda>t. tp_state t = ''completed'') ts)"
  "sr_active (status_loop now ts r) = sr_active r + length (filter (\<lambda>t. tp_state t = ''active'') ts)"
  "sr_pending (status_loop now ts r) = sr_pending r + length (filter (\<lambda>t. tp_state t = ''pending'') ts)"
  "sr_failed (status_loop now ts r) = sr_failed r + length (filter (\<lambda>t. tp_state t = ''failed'') ts)"
  by (induction ts arbitrary: r) (simp_all add: bump_def)

lemma states_partition:
  "length (filter (\<lambda>t. tp_state t = ''completed'') ts) + length (filter (\<lambda>t. tp_state t = ''active'') ts)
   + length (filter (\<lambda>t. tp_state t = ''pending'') ts) + length (filter (\<lambda>t. tp_state t = ''failed'') ts) \<le> length ts"
  by (induction ts) auto

text \<open>
  C22. \<^verbatim>\<open>GET /status\<close> answers whatever the server holds and changes no entry. With status 200 it lists every
  task that has an entry as \<^verbatim>\<open>Get\<close> shows it, each counter is the number of listed tasks in that
  state, and the counters never exceed the total.
\<close>

theorem status_is_accurate:
  assumes "redis_bounded (sc_redis cfg) view rank"
  shows "\<exists>r w'. handle_status pt cfg c now w = Some (r, w') \<and> view (aw_redis w') = view (aw_redis w)
    \<and> (r = Reply 500 (ErrorBody ''failed to list progress'')
       \<or> (\<exists>ts resp. r = Reply 200 (StatusBody resp)
            \<and> tp_task_id ` set ts = {i. entries view (aw_redis w) i \<noteq> Map.empty}
            \<and> ts = map (\<lambda>i. progress_view pt i (entries view (aw_redis w) i)) (map tp_task_id ts)
            \<and> map si_progress (sr_tasks resp) = ts \<and> sr_total resp = length ts
            \<and> sr_completed resp = length (filter (\<lambda>t. tp_state t = ''completed'') ts)
            \<and> sr_active resp = length (filter (\<lambda>t. tp_state t = ''active'') ts)
            \<and> sr_pending resp = length (filter (\<lambda>t. tp_state t = ''pending'') ts)
            \<and> sr_failed resp = length (filter (\<lambda>t. tp_state t = ''failed'') ts)
            \<and> sr_completed resp + sr_active resp + sr_pending resp + sr_failed resp \<le> sr_total resp))"
proof -
  obtain x rd where l: "progress_list pt (sc_redis cfg) c (aw_redis w) = Some (x, rd)" "view rd = view (aw_redis w)"
    "\<And>ps. x = Inr ps \<Longrightarrow> ps = map (\<lambda>i. progress_view pt i (entries view (aw_redis w) i)) (map tp_task_id ps)
         \<and> tp_task_id ` set ps = {i. entries view (aw_redis w) i \<noteq> Map.empty}"
    using redis_bounded.list_correct [OF assms, of pt c "aw_redis w"] by blast
  show ?thesis
  proof (cases x)
    case (Inl e)
    with l show ?thesis by (simp add: handle_status_def)
  next
    case (Inr ts)
    let ?resp = "(status_loop now ts empty_status)\<lparr>sr_total := length ts\<rparr>"
    have h: "handle_status pt cfg c now w = Some (Reply 200 (StatusBody ?resp), w\<lparr>aw_redis := rd\<rparr>)"
      using l(1) Inr by (simp add: handle_status_def)
    have tasks: "map si_progress (sr_tasks ?resp) = ts" by (simp add: status_loop_counts empty_status_def comp_def)
    have cs: "sr_total ?resp = length ts"
      "sr_completed ?resp = length (filter (\<lambda>t. tp_state t = ''completed'') ts)"
      "sr_active ?resp = length (filter (\<lambda>t. tp_state t = ''active'') ts)"
      "sr_pending ?resp = length (filter (\<lambda>t. tp_state t = ''pending'') ts)"
      "sr_failed ?resp = length (filter (\<lambda>t. tp_state t = ''failed'') ts)"
      by (simp_all add: status_loop_counts empty_status_def)
    have sum: "sr_completed ?resp + sr_active ?resp + sr_pending ?resp + sr_failed ?resp \<le> sr_total ?resp"
      unfolding cs by (rule states_partition)
    have v: "view (aw_redis (w\<lparr>aw_redis := rd\<rparr>)) = view (aw_redis w)" using l(2) by simp
    note ps = l(3) [OF Inr]
    show ?thesis
      by (rule exI, rule exI, rule conjI, rule h, rule conjI, rule v, rule disjI2, rule exI [of _ ts], rule exI [of _ ?resp])
        (intro conjI refl conjunct1 [OF ps] conjunct2 [OF ps] tasks cs sum)
  qed
qed

theorem status_is_accurate_witness:
  "\<exists>r w'. handle_status no_time ex_server Live 5 (ex_aworld 1) = Some (r, w') \<and> mem_view (aw_redis w') = mem_view ex_redis"
  using status_is_accurate [of ex_server mem_view "\<lambda>_ cur. scan_slots - cur" no_time Live 5 "ex_aworld 1"] mem.redis_bounded_axioms
  by (auto simp: ex_aworld_def)

text \<open>
  The estimate on the status page says nothing about the work left: whenever it is shown, it is
  exactly a tenth of the time the task has run so far.
\<close>

theorem eta_is_a_tenth_of_elapsed:
  assumes "eta_of now t = Some s"
  shows "s = real_of_int (time_sub now (tp_started_at t)) / 1000000000 / 10 \<and> 0 < s"
  using assms by (auto simp: eta_of_def Let_def max_def field_simps split: if_splits)

theorem eta_is_a_tenth_of_elapsed_witness:
  "\<exists>s. eta_of 1000000000001 ((zero_progress ''a'')\<lparr>tp_state := ''active'', tp_samples_read := 200, tp_started_at := 1\<rparr>) = Some s \<and> s = 100"
proof -
  let ?t = "(zero_progress ''a'')\<lparr>tp_state := ''active'', tp_samples_read := 200, tp_started_at := 1\<rparr>"
  have "eta_of 1000000000001 ?t = Some 100"
    by (simp add: eta_of_def zero_progress_def time_sub_def min_int64_def max_int64_def Let_def)
  from eta_is_a_tenth_of_elapsed [OF this] this show ?thesis by blast
qed

text \<open>
  While the server rehashes, the keys that \<^verbatim>\<open>SCAN\<close> repeats are listed and counted twice.
\<close>

definition rehashing :: mem_redis where
  "rehashing = ex_redis\<lparr>mr_rehash := True\<rparr>"

lemma rehashing_keys:
  "slot_keys rehashing progress_prefix n =
     (if n = 3 then [''migrate:progress:a''] else if n = 0 then [''migrate:progress:b''] else [])"
  by (auto simp: slot_keys_def slot_def scan_slots_def rehashing_def ex_redis_def mem_fields_def progress_prefix_def)

lemma rehashing_get: "progress_get no_time mem_client Live i rehashing = (Inr (progress_from no_time i (mem_fields rehashing (progress_key i))), rehashing)"
  by (simp add: progress_get_def mem_client_def mem_hgetall_def mem_fault_def rehashing_def ex_redis_def)

lemma rehashing_scan: "rd_scan mem_client Live n (progress_prefix @ ''*'') 100 rehashing =
   (Inr (slot_keys rehashing progress_prefix n @ slot_keys rehashing progress_prefix n, if n + 1 < 4 then n + 1 else 0), rehashing)"
  by (simp add: mem_client_def mem_scan_def mem_fault_def scan_slots_def butlast_append) (simp add: rehashing_def ex_redis_def)

lemma rehashing_step:
  "list_loop no_time mem_client Live n rs rehashing =
     (let shown = map (\<lambda>k. progress_from no_time (drop (length progress_prefix) k) (mem_fields rehashing (progress_key (drop (length progress_prefix) k))))
                    (slot_keys rehashing progress_prefix n @ slot_keys rehashing progress_prefix n)
      in if n + 1 < 4 then list_loop no_time mem_client Live (n + 1) (rs @ shown) rehashing else Some (Inr (rs @ shown), rehashing))"
proof -
  have g: "get_keys no_time mem_client Live ks rs rehashing =
      (Inr (rs @ map (\<lambda>k. progress_from no_time (drop (length progress_prefix) k) (mem_fields rehashing (progress_key (drop (length progress_prefix) k)))) ks), rehashing)" for ks rs
    by (induction ks arbitrary: rs) (simp_all add: rehashing_get)
  show ?thesis
    by (subst list_loop.simps) (simp add: rehashing_scan g Let_def)
qed

lemma rehashing_list:
  "\<exists>ts. progress_list no_time mem_client Live rehashing = Some (Inr ts, rehashing) \<and> map tp_task_id ts = [''b'', ''b'', ''a'', ''a'']"
proof -
  have id: "tp_task_id (progress_from no_time i fs) = i" for i fs by (simp add: progress_from_def zero_progress_def)
  show ?thesis
    by (simp add: progress_list_def rehashing_step [of 0] rehashing_step [of 1] rehashing_step [of "Suc 0"] rehashing_step [of 2]
        rehashing_step [of 3] rehashing_keys Let_def id numeral_2_eq_2 [symmetric] numeral_3_eq_3 [symmetric])
      (simp add: progress_prefix_def)
qed

theorem status_double_counts_while_rehashing:
  "\<exists>resp w'. handle_status no_time ex_server Live 0 ((ex_aworld 1)\<lparr>aw_redis := rehashing\<rparr>) = Some (Reply 200 (StatusBody resp), w')
     \<and> sr_total resp = 4 \<and> map (tp_task_id \<circ> si_progress) (sr_tasks resp) = [''b'', ''b'', ''a'', ''a'']"
proof -
  obtain ts where l: "progress_list no_time mem_client Live rehashing = Some (Inr ts, rehashing)" "map tp_task_id ts = [''b'', ''b'', ''a'', ''a'']"
    using rehashing_list by (elim exE conjE)
  let ?R = "(status_loop 0 ts empty_status)\<lparr>sr_total := length ts\<rparr>"
  have h: "handle_status no_time ex_server Live 0 ((ex_aworld 1)\<lparr>aw_redis := rehashing\<rparr>)
      = Some (Reply 200 (StatusBody ?R), (ex_aworld 1)\<lparr>aw_redis := rehashing\<rparr>)"
    by (simp add: handle_status_def l(1))
  have n: "sr_total ?R = 4" using arg_cong [OF l(2), of length] by simp
  have "map (tp_task_id \<circ> si_progress) (sr_tasks ?R) = map tp_task_id ts"
    by (simp add: status_loop_counts empty_status_def comp_def)
  then have m: "map (tp_task_id \<circ> si_progress) (sr_tasks ?R) = [''b'', ''b'', ''a'', ''a'']" by (simp only: l(2))
  show ?thesis by (rule exI, rule exI, rule conjI, rule h, rule conjI, rule n, rule m)
qed

section \<open>DELETE /tasks\<close>

text \<open>
  What is known of the asynq inspector: a listing returns one page of at most 30 tasks and removes
  none, cancelling removes none, and deleting removes at most the task it names and adds none. \<open>live q\<close> are the
  ids in the queue.
\<close>

locale paged_inspector =
  fixes d :: "('q, 'k) deps" and live :: "'q \<Rightarrow> string set"
  assumes list_page: "dp_list d s qn q = (Inr infos, q') \<Longrightarrow> length infos \<le> 30 \<and> live q' = live q"
    and list_err: "dp_list d s qn q = (Inl e, q') \<Longrightarrow> live q' = live q"
    and delete_one: "dp_delete d qn i q = (x, q') \<Longrightarrow> live q - {i} \<subseteq> live q' \<and> live q' \<subseteq> live q"
    and cancel_none: "dp_cancel d i q = (y, q') \<Longrightarrow> live q' = live q"

text \<open>The tasks that the six listings of a request show, one page for each state.\<close>

fun listings :: "('q, 'k) deps \<Rightarrow> (string \<times> task_state) list \<Rightarrow> 'q \<Rightarrow> task_info list" where
  "listings d [] q = []"
| "listings d ((_, s) # lfs) q = (case dp_list d s ''migration'' q of
     (Inl e, q') \<Rightarrow> []
   | (Inr infos, q') \<Rightarrow> infos @ listings d lfs q')"

lemma list_targets_are_listed:
  "list_targets d al pid lfs ids st q = (Inr (ids', st'), q') \<Longrightarrow> ids' = ids @ map ti_id (filter (is_target al pid) (listings d lfs q))"
proof (induction lfs arbitrary: ids st q)
  case (Cons lf lfs)
  obtain name s where lf: "lf = (name, s)" by fastforce
  obtain infos q1 where l: "dp_list d s ''migration'' q = (Inr infos, q1)" using Cons.prems by (auto simp: lf split: sum.splits prod.splits)
  let ?new = "map ti_id (filter (is_target al pid) infos)"
  have "list_targets d al pid lfs (ids @ ?new) (st ++ map_of (map (\<lambda>i. (i, s)) ?new)) q1 = (Inr (ids', st'), q')"
    using Cons.prems by (simp add: lf l Let_def)
  from Cons.IH [OF this] show ?case by (simp add: lf l)
qed simp

context paged_inspector begin

lemma listings_paged: "length (listings d lfs q) \<le> 30 * length lfs"
proof (induction lfs arbitrary: q)
  case (Cons lf lfs)
  obtain name s where lf: "lf = (name, s)" by fastforce
  obtain x q1 where l: "dp_list d s ''migration'' q = (x, q1)" by fastforce
  show ?case using Cons.IH [of q1] list_page [of s "''migration''" q _ q1] l by (cases x) (fastforce simp: lf)+
qed simp

lemma list_targets_live: "list_targets d al pid lfs ids st q = (res, q') \<Longrightarrow> live q' = live q"
proof (induction lfs arbitrary: ids st q)
  case (Cons lf lfs)
  obtain name s where lf: "lf = (name, s)" by fastforce
  obtain x q1 where l: "dp_list d s ''migration'' q = (x, q1)" by fastforce
  have "live q1 = live q" using l list_page [of s _ q _ q1] list_err [of s _ q _ q1] by (cases x) blast+
  then show ?case using Cons.prems Cons.IH [of _ _ q1] l by (cases x) (auto simp: lf Let_def)
qed simp

lemma cancel_loop_live: "live (cancel_loop d st ids q) = live q"
proof (induction ids arbitrary: q)
  case (Cons i ids)
  then show ?case using cancel_none [of i q "fst (dp_cancel d i q)"] by simp
qed simp

lemma delete_tasks_loop_live:
  "delete_tasks_loop d ids n q = (m, q') \<Longrightarrow> live q - set ids \<subseteq> live q' \<and> live q' \<subseteq> live q \<and> m \<le> n + length ids"
proof (induction ids arbitrary: n q)
  case (Cons i ids)
  obtain x q1 where del: "dp_delete d ''migration'' i q = (x, q1)" by fastforce
  obtain n' where n': "delete_tasks_loop d ids n' q1 = (m, q')" "n' \<le> n + 1"
    using Cons.prems del by (auto split: sum.splits if_splits)
  with Cons.IH [OF n'(1)] delete_one [OF del] show ?case by auto
qed simp

end

text \<open>An inspector that really deletes: after a deletion that succeeded, or found no task, the task is not there.\<close>

locale exact_inspector = paged_inspector d live for d :: "('q, 'k) deps" and live +
  assumes delete_ok: "dp_delete d qn i q = (Inr u, q') \<Longrightarrow> i \<notin> live q'"
    and delete_missing: "dp_delete d qn i q = (Inl e, q') \<Longrightarrow> errors_is e (dp_not_found d) \<Longrightarrow> i \<notin> live q'"
begin

lemma delete_tasks_loop_all:
  "delete_tasks_loop d ids n q = (m, q') \<Longrightarrow> m = n + length ids \<Longrightarrow> set ids \<inter> live q' = {}"
proof (induction ids arbitrary: n q)
  case (Cons i ids)
  obtain x q1 where del: "dp_delete d ''migration'' i q = (x, q1)" by fastforce
  let ?gone = "case x of Inl e \<Rightarrow> errors_is e (dp_not_found d) | Inr _ \<Rightarrow> True"
  have loop: "delete_tasks_loop d ids (if ?gone then n + 1 else n) q1 = (m, q')"
    using Cons.prems(1) del by (cases x) (auto split: if_splits)
  note rest = delete_tasks_loop_live [OF loop]
  have gone: ?gone using rest Cons.prems(2) by (auto split: if_splits)
  then have "i \<notin> live q1" using del delete_ok delete_missing by (cases x) auto
  moreover have "set ids \<inter> live q' = {}" using Cons.IH [OF loop] gone Cons.prems(2) by simp
  ultimately show ?case using rest by auto
qed simp

end

definition queue_ids :: "mem_queue \<Rightarrow> string set" where
  "queue_ids q = fst ` set (mq_tasks q)"

interpretation mem_insp: exact_inspector mem_deps queue_ids
  by unfold_locales (auto simp: mem_deps_def mem_list_def mem_delete_def noop_task_call_def queue_ids_def split: if_splits)

text \<open>
  The inspector that \<^verbatim>\<open>NewServer\<close> installs when it is given none keeps the contract of listing for every queue;
  it deletes nothing.
\<close>

interpretation noop_insp: paged_inspector "new_server_deps base \<lparr>md_applier = None, md_inspector = None, md_ready = None\<rparr>" live for base live
  by unfold_locales (auto simp: new_server_deps_def noop_list_def noop_task_call_def)

text \<open>
  C31. \<^verbatim>\<open>DELETE /tasks\<close> asks the inspector for one page of each state and removes from the queue no task but
  those these pages show and that match the request (the project id, or any with \<^verbatim>\<open>all=true\<close>): at most 180,
  however many there are, although the answer is 200. Nothing is added to the queue. If the answer counts as many
  deleted tasks as there are targets, none of them is left.
\<close>

theorem delete_removes_at_most_six_pages:
  assumes "exact_inspector (sc_deps cfg) live" "handle_delete_tasks cfg c pid al w = Some (r, w')"
    and "ids = map ti_id (filter (is_target (al = ''true'') pid) (listings (sc_deps cfg) list_states (aw_queue w)))"
  shows "length ids \<le> 180 \<and> live (aw_queue w) - set ids \<subseteq> live (aw_queue w') \<and> live (aw_queue w') \<subseteq> live (aw_queue w)
    \<and> (\<forall>resp. r = Reply 200 (DeleteBody resp) \<longrightarrow> dr_deleted_tasks resp \<le> length ids
         \<and> (dr_deleted_tasks resp = length ids \<longrightarrow> set ids \<inter> live (aw_queue w') = {}))"
proof -
  let ?d = "sc_deps cfg"
  have pi: "paged_inspector ?d live" using assms(1) by (rule exact_inspector.axioms(1))
  obtain x q where l: "list_targets ?d (al = ''true'') pid list_states [] Map.empty (aw_queue w) = (x, q)" by fastforce
  have q: "live q = live (aw_queue w)" by (rule paged_inspector.list_targets_live [OF pi l])
  have len: "length ids \<le> 180"
    using paged_inspector.listings_paged [OF pi, of list_states "aw_queue w"] unfolding assms(3)
    by (simp add: list_states_def le_trans [OF length_filter_le])
  consider "w' = w" "\<exists>m. r = Reply 400 (ErrorBody m)" | msg where "x = Inl msg" "r = Reply 500 (ErrorBody msg)" "w' = w\<lparr>aw_queue := q\<rparr>"
    | ids' st where "x = Inr (ids', st)" "aw_queue w' = snd (delete_tasks_loop ?d ids' 0 (cancel_loop ?d st ids' q))"
      "\<forall>resp. r = Reply 200 (DeleteBody resp) \<longrightarrow> dr_deleted_tasks resp = fst (delete_tasks_loop ?d ids' 0 (cancel_loop ?d st ids' q))"
    using assms(2) l by (auto simp: handle_delete_tasks_def Let_def split: if_splits sum.splits prod.splits option.splits)
  then show ?thesis
  proof cases
    case 3
    have ids: "ids' = ids" using list_targets_are_listed [OF l [unfolded 3(1)]] by (simp add: assms(3))
    obtain m q2 where d: "delete_tasks_loop ?d ids 0 (cancel_loop ?d st ids q) = (m, q2)" by fastforce
    note del = paged_inspector.delete_tasks_loop_live [OF pi d] exact_inspector.delete_tasks_loop_all [OF assms(1) d]
    have "live (cancel_loop ?d st ids q) = live (aw_queue w)" using paged_inspector.cancel_loop_live [OF pi, of st ids q] q by simp
    moreover have "aw_queue w' = q2" "\<And>resp. r = Reply 200 (DeleteBody resp) \<Longrightarrow> dr_deleted_tasks resp = m"
      using 3(2,3) d by (simp_all add: ids)
    ultimately show ?thesis using len del by auto
  qed (use len q in auto)
qed

text \<open>A queue with a task of each of two projects.\<close>

definition ex_two_tasks :: "(mem_redis, mem_queue, unit) aworld" where
  "ex_two_tasks = (ex_aworld 0)\<lparr>aw_queue := \<lparr>mq_tasks = [(''t1'', new_migrate_task (request_payload ex_server ''a'')),
     (''t2'', new_migrate_task (request_payload ex_server ''b''))], mq_room = 0\<rparr>\<rparr>"

lemma ex_two_listed:
  "map ti_id (filter (is_target False ''a'') (listings mem_deps list_states (aw_queue ex_two_tasks))) = [''t1'']"
proof -
  have "unmarshal_payload (task_payload (new_migrate_task (request_payload ex_server pid))) = Inr (request_payload ex_server pid)"
    if "valid_utf8 pid" for pid
  proof -
    have "payload_ok (request_payload ex_server pid)"
      using that by (simp add: payload_ok_def request_payload_def ex_server_def wire_eval)
    from unmarshal_marshal [OF this] show ?thesis by (simp add: new_migrate_task_def)
  qed
  from this [of "''a''"] this [of "''b''"] show ?thesis
    by (simp add: list_states_def mem_deps_def mem_list_def ex_two_tasks_def is_target_def wire_eval) (simp add: request_payload_def)
qed

theorem delete_removes_at_most_six_pages_witness:
  "\<exists>r w'. handle_delete_tasks ex_server Live ''a'' [] ex_two_tasks = Some (r, w')
     \<and> ''t2'' \<in> queue_ids (aw_queue w') \<and> queue_ids (aw_queue w') \<subseteq> {''t1'', ''t2''}"
proof -
  have "\<exists>r w'. handle_delete_tasks ex_server Live ''a'' [] ex_two_tasks = Some (r, w')"
    by (auto simp: handle_delete_tasks_def Let_def split: sum.splits prod.splits)
  then obtain r w' where run: "handle_delete_tasks ex_server Live ''a'' [] ex_two_tasks = Some (r, w')" by (elim exE)
  have ids: "queue_ids (aw_queue ex_two_tasks) = {''t1'', ''t2''}" by (simp add: queue_ids_def ex_two_tasks_def)
  have al: "map ti_id (filter (is_target ([] = ''true'') ''a'') (listings (sc_deps ex_server) list_states (aw_queue ex_two_tasks))) = [''t1'']"
    using ex_two_listed by simp
  have "exact_inspector (sc_deps ex_server) queue_ids" using mem_insp.exact_inspector_axioms by simp
  from delete_removes_at_most_six_pages [OF this run refl] have "queue_ids (aw_queue ex_two_tasks) - {''t1''} \<subseteq> queue_ids (aw_queue w')"
    "queue_ids (aw_queue w') \<subseteq> queue_ids (aw_queue ex_two_tasks)" unfolding al by simp_all
  with run show ?thesis unfolding ids by (intro exI [of _ r] exI [of _ w']) auto
qed

section \<open>The API and the worker\<close>

text \<open>
  The pending state is written after the task is in the queue, so a worker may have finished the
  task by then: in that order of the two, \<^verbatim>\<open>GET /status\<close> shows a finished task as pending, with the
  counters of its run, and nothing will correct it.
\<close>

theorem late_pending_hides_completion:
  assumes "redis_store (env_redis E) view" "process_task E (Some i) rand task w = (None, w1)"
    and "progress_update (env_redis E) c i [(''project_id'', pid), (''state'', ''pending'')] (w_redis w1) = (Inr u, rd)"
  shows "tp_state (progress_view pt i (entries view rd i)) = ''pending''
    \<and> tp_samples_sent (progress_view pt i (entries view rd i)) = atoi_val (str_of (entries view (w_redis w1) i ''samples_sent''))"
proof -
  have "entries view rd i = entries view (w_redis w1) i ++ map_of [(''project_id'', pid), (''state'', ''pending'')]"
    using progress_contract.update_ok [OF redis_store.progress_store_contract [OF assms(1)] assms(3)] by (simp add: entry_update_def)
  then show ?thesis by (auto simp: progress_view_def zero_progress_def fun_eq_iff)
qed

theorem late_pending_hides_completion_witness:
  "\<exists>w1 rd. process_task (ex_env Live None) (Some ''a'') [] (new_migrate_task ex_payload) ex_world = (None, w1)
     \<and> progress_update mem_client Live ''a'' [(''project_id'', ''p1''), (''state'', ''pending'')] (w_redis w1) = (Inr (), rd)
     \<and> tp_state (progress_view no_time ''a'' (entries mem_view rd ''a'')) = ''pending''"
proof -
  obtain w1 where r: "process_task (ex_env Live None) (Some ''a'') [] (new_migrate_task ex_payload) ex_world = (None, w1)"
    using ex_env_result [of Live None] by auto
  have "live_env (ex_env Live None)" by (simp add: live_env_def)
  then have "mr_up (w_redis w1)"
    using process_task_up [OF _ _ _ _ ex_parse _ _ r, of mem_view mr_up "\<lambda>_. Inr ()" "()"] mem.redis_store_axioms mem_hset_up by simp
  then obtain rd where u: "progress_update mem_client Live ''a'' [(''project_id'', ''p1''), (''state'', ''pending'')] (w_redis w1) = (Inr (), rd)"
    by (auto simp: progress_update_def mem_client_def mem_hset_def mem_fault_def)
  from late_pending_hides_completion [OF _ r, of mem_view] u r mem.redis_store_axioms show ?thesis by auto
qed

text \<open>
  An empty project id is accepted by the API but every run of its task fails before it writes
  anything, so the task's entry stays pending and no history line is written.
\<close>

theorem empty_project_id_never_runs:
  assumes "payload_ok (request_payload cfg [])"
  shows "process_task E rw rand (new_migrate_task (request_payload cfg [])) w
     = (Some (wrapf ''parse payload: '' (errors_new ''project_id is required'')), w)"
proof -
  have "unmarshal_payload (print_json (payload_json (request_payload cfg []))) = Inr (request_payload cfg [])"
    by (rule unmarshal_marshal [OF assms])
  then show ?thesis
    by (simp add: process_task_def parse_migrate_payload_def new_migrate_task_def) (simp add: request_payload_def)
qed

theorem empty_project_id_never_runs_witness:
  "decode_migrate_request (ex_body [[]]) = Inr [[]]
   \<and> process_task (ex_env Live None) (Some ''a'') [] (new_migrate_task (request_payload ex_server [])) ex_world
     = (Some (wrapf ''parse payload: '' (errors_new ''project_id is required'')), ex_world)"
proof -
  have "payload_ok (request_payload ex_server [])"
    by (simp add: payload_ok_def request_payload_def ex_server_def wire_eval)
  from empty_project_id_never_runs [OF this] show ?thesis
    by (auto intro: ex_body_decodes simp: valid_utf8.simps [of "[]"])
qed

end
