(* ===== verification/Filepath.thy ===== *)
theory Filepath
  imports Prelude
begin

text \<open>
  The string functions of Go's \<^verbatim>\<open>strings\<close> and \<^verbatim>\<open>path/filepath\<close> packages that the binaries use, on a Unix
  system: splitting at a separator, \<^verbatim>\<open>Clean\<close>, \<^verbatim>\<open>Join\<close> and \<^verbatim>\<open>Dir\<close>.
\<close>

section \<open>Splitting and joining\<close>

text \<open>\<^verbatim>\<open>strings.Split(s, sep)\<close> for a separator of one byte; \<open>acc\<close> is the segment read so far.\<close>

fun split_on :: "char \<Rightarrow> string \<Rightarrow> string \<Rightarrow> string list" where
  "split_on sep acc [] = [acc]"
| "split_on sep acc (c # cs) = (if c = sep then acc # split_on sep [] cs else split_on sep (acc @ [c]) cs)"

text \<open>\<^verbatim>\<open>strings.Join(parts, sep)\<close>.\<close>

fun join_with :: "char \<Rightarrow> string list \<Rightarrow> string" where
  "join_with sep [] = []"
| "join_with sep [t] = t"
| "join_with sep (t # u # ts) = t @ sep # join_with sep (u # ts)"

lemma split_on_no_sep: "sep \<notin> set t \<Longrightarrow> split_on sep acc t = [acc @ t]"
  by (induction t arbitrary: acc) auto

lemma split_on_append: "sep \<notin> set t \<Longrightarrow> split_on sep acc (t @ sep # rest) = (acc @ t) # split_on sep [] rest"
  by (induction t arbitrary: acc) auto

lemma split_join: "ts \<noteq> [] \<Longrightarrow> \<forall>t \<in> set ts. sep \<notin> set t \<Longrightarrow> split_on sep [] (join_with sep ts) = ts"
  by (induction sep ts rule: join_with.induct) (simp_all add: split_on_no_sep split_on_append)

lemma split_on_pieces: "t \<in> set (split_on sep acc s) \<Longrightarrow> sep \<notin> set acc \<Longrightarrow> sep \<notin> set t"
  by (induction sep acc s rule: split_on.induct) (auto split: if_splits)

section \<open>Clean\<close>

text \<open>
  The segments of a path, resolved from left to right: empty ones and \<^verbatim>\<open>.\<close> vanish, \<^verbatim>\<open>..\<close> removes the
  segment before it; where there is none it stays, or vanishes at the root.
\<close>

definition clean_step :: "bool \<Rightarrow> string list \<Rightarrow> string \<Rightarrow> string list" where
  "clean_step rooted out e =
     (if e = [] \<or> e = ''.'' then out
      else if e = ''..'' then
        (if out \<noteq> [] \<and> last out \<noteq> ''..'' then butlast out else if rooted then out else out @ [''..''])
      else out @ [e])"

definition is_rooted :: "string \<Rightarrow> bool" where
  "is_rooted s \<longleftrightarrow> s \<noteq> [] \<and> hd s = CHR ''/''"

definition clean_segments :: "string \<Rightarrow> string list" where
  "clean_segments s = foldl (clean_step (is_rooted s)) [] (split_on (CHR ''/'') [] s)"

definition render_path :: "bool \<Rightarrow> string list \<Rightarrow> string" where
  "render_path rooted segs =
     (if rooted then CHR ''/'' # join_with (CHR ''/'') segs
      else if segs = [] then ''.'' else join_with (CHR ''/'') segs)"

definition clean_path :: "string \<Rightarrow> string" where
  "clean_path s = render_path (is_rooted s) (clean_segments s)"

text \<open>\<^verbatim>\<open>filepath.Join\<close>, which skips leading empty elements, and \<^verbatim>\<open>filepath.Dir\<close>.\<close>

definition join_path :: "string list \<Rightarrow> string" where
  "join_path elems =
     (let es = dropWhile (\<lambda>e. e = []) elems in if es = [] then [] else clean_path (join_with (CHR ''/'') es))"

definition dir_path :: "string \<Rightarrow> string" where
  "dir_path p = clean_path (rev (dropWhile (\<lambda>c. c \<noteq> CHR ''/'') (rev p)))"

section \<open>Clean paths\<close>

text \<open>
  Resolved segments: ordinary names, behind some \<^verbatim>\<open>..\<close> in a relative path. They are what \<^verbatim>\<open>Clean\<close> leaves,
  and it leaves them alone.
\<close>

definition plain_segment :: "string \<Rightarrow> bool" where
  "plain_segment e \<longleftrightarrow> e \<noteq> [] \<and> e \<noteq> ''.'' \<and> e \<noteq> ''..'' \<and> CHR ''/'' \<notin> set e"

definition resolved :: "bool \<Rightarrow> string list \<Rightarrow> bool" where
  "resolved rooted out \<longleftrightarrow>
     (\<exists>n names. out = replicate n ''..'' @ names \<and> list_all plain_segment names \<and> (rooted \<longrightarrow> n = 0))"

lemma plain_dotdot [simp]: "\<not> plain_segment ''..''"
  by (simp add: plain_segment_def)

lemma resolved_step:
  assumes "resolved rooted out" "CHR ''/'' \<notin> set e"
  shows "resolved rooted (clean_step rooted out e)"
proof -
  from assms(1) obtain n names where out: "out = replicate n ''..'' @ names" "list_all plain_segment names" "rooted \<longrightarrow> n = 0"
    unfolding resolved_def by blast
  consider "e = [] \<or> e = ''.''" | "e = ''..''" | "plain_segment e" using assms(2) by (auto simp: plain_segment_def)
  then show ?thesis
  proof cases
    case 1
    with assms(1) show ?thesis by (simp add: clean_step_def)
  next
    case 2
    show ?thesis
    proof (cases names rule: rev_cases)
      case Nil
      then have "clean_step rooted out e = (if rooted then out else replicate (Suc n) ''..'')"
        using 2 out by (cases n) (auto simp: clean_step_def replicate_append_same)
      with assms(1) show ?thesis
        by (auto simp: resolved_def intro!: exI [of _ "Suc n"] exI [of _ "[]"])
    next
      case (snoc ms m)
      with out have "m \<noteq> ''..''" by (auto simp: list_all_iff plain_segment_def)
      then have "clean_step rooted out e = replicate n ''..'' @ ms"
        using 2 out(1) snoc by (simp add: clean_step_def butlast_append)
      with out snoc show ?thesis by (auto simp: resolved_def)
    qed
  next
    case 3
    then have "clean_step rooted out e = replicate n ''..'' @ (names @ [e])"
      using out(1) by (auto simp: clean_step_def plain_segment_def)
    moreover have "list_all plain_segment (names @ [e])" using 3 out(2) by simp
    ultimately show ?thesis using out(3) unfolding resolved_def by (intro exI [of _ n] exI [of _ "names @ [e]"] conjI)
  qed
qed

lemma resolved_fold:
  "resolved rooted out \<Longrightarrow> \<forall>e \<in> set es. CHR ''/'' \<notin> set e \<Longrightarrow> resolved rooted (foldl (clean_step rooted) out es)"
  by (induction es arbitrary: out) (auto simp: resolved_step)

lemma clean_segments_resolved: "resolved (is_rooted s) (clean_segments s)"
  unfolding clean_segments_def
  by (rule resolved_fold) (auto simp: resolved_def dest: split_on_pieces)

lemma clean_step_dotdots: "\<not> rooted \<Longrightarrow> foldl (clean_step rooted) (replicate m ''..'') (replicate n ''..'') = replicate (m + n) ''..''"
proof (induction n arbitrary: m)
  case (Suc n)
  have "clean_step rooted (replicate m ''..'') ''..'' = replicate (Suc m) ''..''"
    using Suc.prems by (cases m) (auto simp: clean_step_def replicate_append_same)
  with Suc.IH [of "Suc m"] Suc.prems show ?case by simp
qed simp

lemma clean_step_plain: "list_all plain_segment names \<Longrightarrow> foldl (clean_step rooted) out names = out @ names"
  by (induction names arbitrary: out) (auto simp: clean_step_def plain_segment_def)

lemma clean_step_resolved: "resolved rooted segs \<Longrightarrow> foldl (clean_step rooted) [] segs = segs"
proof -
  assume "resolved rooted segs"
  then obtain n names where segs: "segs = replicate n ''..'' @ names" "list_all plain_segment names" "rooted \<longrightarrow> n = 0"
    unfolding resolved_def by (elim exE conjE)
  have "foldl (clean_step rooted) [] (replicate n ''..'') = replicate n ''..''"
    using clean_step_dotdots [of rooted 0 n] segs(3) by (cases rooted) simp_all
  then show ?thesis by (simp add: segs(1) clean_step_plain [OF segs(2)])
qed

lemma resolved_no_slash: "resolved rooted segs \<Longrightarrow> \<forall>e \<in> set segs. CHR ''/'' \<notin> set e \<and> e \<noteq> []"
proof
  fix e assume "resolved rooted segs" and e: "e \<in> set segs"
  then obtain n names where "segs = replicate n ''..'' @ names" and names: "list_all plain_segment names"
    unfolding resolved_def by (elim exE conjE)
  with e consider "e = ''..''" | "e \<in> set names" by fastforce
  then show "CHR ''/'' \<notin> set e \<and> e \<noteq> []"
    by cases (use names in \<open>simp_all add: list_all_iff plain_segment_def\<close>)
qed

lemma join_with_hd: "segs \<noteq> [] \<Longrightarrow> \<forall>e \<in> set segs. sep \<notin> set e \<and> e \<noteq> [] \<Longrightarrow> join_with sep segs \<noteq> [] \<and> hd (join_with sep segs) \<noteq> sep"
  by (induction sep segs rule: join_with.induct) (auto simp: hd_append)

lemma is_rooted_render: "resolved rooted segs \<Longrightarrow> is_rooted (render_path rooted segs) = rooted"
  using join_with_hd [of segs "CHR ''/''"] resolved_no_slash [of rooted segs]
  by (auto simp: render_path_def is_rooted_def)

lemma segments_render:
  assumes "resolved rooted segs"
  shows "clean_segments (render_path rooted segs) = segs"
proof -
  have split: "segs \<noteq> [] \<Longrightarrow> split_on (CHR ''/'') [] (join_with (CHR ''/'') segs) = segs"
    using split_join [of segs "CHR ''/''"] resolved_no_slash [OF assms] by blast
  have nil: "clean_step b out [] = out" "clean_step b out ''.'' = out" for b out by (simp_all add: clean_step_def)
  have "foldl (clean_step rooted) [] (split_on (CHR ''/'') [] (render_path rooted segs)) = segs"
    using split clean_step_resolved [OF assms] by (cases "segs = []") (auto simp: render_path_def nil)
  then show ?thesis by (simp add: clean_segments_def is_rooted_render [OF assms])
qed

text \<open>Cleaning twice is cleaning once.\<close>

lemma clean_path_idem: "clean_path (clean_path s) = clean_path s"
  by (simp add: clean_path_def is_rooted_render segments_render clean_segments_resolved)

end
