(* ===== verification/Server.thy ===== *)
theory Server
  imports Machine Filepath Progress_Correct
begin

text \<open>
  The service binary (\<^verbatim>\<open>cmd/server/main.go\<close>): the configuration it reads from the environment, and
  \<^verbatim>\<open>main\<close> as a state machine, from the configuration to the end of the shutdown, with the two
  goroutines it launches. What the outside answers (the probe, Redis, the file system, Kubernetes,
  the TSDB) is the input; when the goroutines act, whether they fail and when the signal arrives
  is left to the schedule.
\<close>

section \<open>Configuration\<close>

record config =
  redis_addr :: string
  tsdb_path :: string
  cortex_url :: string
  history_log_path :: string
  max_batch_bytes :: int
  writer_concurrency :: int
  queue_concurrency :: int
  http_addr :: string
  dry_run :: bool
  asynq_shutdown_timeout_seconds :: int

definition zero_config :: config where
  "zero_config = \<lparr>redis_addr = [], tsdb_path = [], cortex_url = [], history_log_path = [], max_batch_bytes = 0,
     writer_concurrency = 0, queue_concurrency = 0, http_addr = [], dry_run = False, asynq_shutdown_timeout_seconds = 0\<rparr>"

text \<open>\<open>getenv\<close> gives the empty string for a variable that is not set.\<close>

definition env_or_default :: "(string \<Rightarrow> string) \<Rightarrow> string \<Rightarrow> string \<Rightarrow> string" where
  "env_or_default getenv key fallback = (if getenv key \<noteq> '''' then getenv key else fallback)"

definition num_error :: goerr where
  "num_error = errors_new ''strconv.Atoi''"

definition int_env :: "(string \<Rightarrow> string) \<Rightarrow> string \<Rightarrow> int \<Rightarrow> goerr + int" where
  "int_env getenv key dflt =
     (if getenv key = '''' then Inr dflt
      else case atoi (getenv key) of
        (n, None) \<Rightarrow> Inr n
      | (_, Some _) \<Rightarrow> Inl (wrapf (''invalid '' @ key @ '': '') num_error))"

definition load_config :: "(string \<Rightarrow> string) \<Rightarrow> goerr + config" where
  "load_config getenv =
     (case int_env getenv ''MAX_BATCH_BYTES'' (3 * 1024 * 1024) of Inl e \<Rightarrow> Inl e | Inr mbb \<Rightarrow>
      (case int_env getenv ''WRITER_CONCURRENCY'' 4 of Inl e \<Rightarrow> Inl e | Inr wc \<Rightarrow>
       (case int_env getenv ''QUEUE_CONCURRENCY'' 1 of Inl e \<Rightarrow> Inl e | Inr qc \<Rightarrow>
        (case int_env getenv ''ASYNQ_SHUTDOWN_TIMEOUT_SECONDS'' 100 of Inl e \<Rightarrow> Inl e | Inr st \<Rightarrow>
         (let c = \<lparr>redis_addr = env_or_default getenv ''REDIS_ADDR'' ''localhost:6379'',
                   tsdb_path = env_or_default getenv ''TSDB_PATH'' ''/data/tsdb'',
                   cortex_url = env_or_default getenv ''CORTEX_URL'' ''http://localhost:8080'',
                   history_log_path = env_or_default getenv ''HISTORY_LOG_PATH'' ''/var/log/migrator/history.jsonl'',
                   max_batch_bytes = mbb, writer_concurrency = wc, queue_concurrency = qc,
                   http_addr = env_or_default getenv ''HTTP_ADDR'' '':8090'',
                   dry_run = (getenv ''DRY_RUN'' = ''true'' \<or> getenv ''DRY_RUN'' = ''1''),
                   asynq_shutdown_timeout_seconds = st\<rparr>
          in if cortex_url c = '''' then Inl (errors_new ''CORTEX_URL is required'') else Inr c)))))"

declare load_config_def [config_defs] int_env_def [config_defs] env_or_default_def [config_defs]

section \<open>main\<close>

datatype applier_kind = NoopApplier | ClusterApplier

text \<open>What \<^verbatim>\<open>main\<close> and its goroutines do to the outside, in the order in which it happens.\<close>

datatype event =
    Probed string
  | Reconciled
  | HistoryOpened string
  | ApplierChosen applier_kind
  | ClientCreated
  | InspectorCreated
  | TsdbOpened string
  | BecameReady
  | WorkerStarted
  | HttpStarted
  | SignalReceived
  | WorkerDrained
  | TsdbClosed
  | HttpShutdown
  | RedisClosed
  | InspectorClosed
  | ClientClosed
  | HistoryClosed

record 'w boot_inputs =
  bi_getenv :: "string \<Rightarrow> string"
  bi_probe :: "string \<Rightarrow> goerr option"
  bi_redis :: "'w redis_client"
  bi_parse_time :: "string \<Rightarrow> gotime option"
  bi_mkdir_all :: "string \<Rightarrow> goerr option"
  bi_open_file :: "string \<Rightarrow> goerr option"
  bi_in_cluster :: bool
  bi_from_kubeconfig :: "string \<Rightarrow> bool"
  bi_clientset :: bool
  bi_open_tsdb :: "string \<Rightarrow> goerr option"

definition opens_history :: "'w boot_inputs \<Rightarrow> config \<Rightarrow> bool" where
  "opens_history b cfg \<longleftrightarrow> history_log_path cfg \<noteq> ''''
     \<and> bi_mkdir_all b (dir_path (history_log_path cfg)) = None \<and> bi_open_file b (history_log_path cfg) = None"

text \<open>In-cluster configuration first, then \<^verbatim>\<open>KUBECONFIG\<close>, otherwise overrides are disabled.\<close>

definition choose_applier :: "'w boot_inputs \<Rightarrow> applier_kind" where
  "choose_applier b =
     (if (bi_in_cluster b \<or> bi_from_kubeconfig b (bi_getenv b ''KUBECONFIG'')) \<and> bi_clientset b
      then ClusterApplier else NoopApplier)"

text \<open>
  The program counter of \<^verbatim>\<open>main\<close>, named after the statement it is about to run, and the two
  goroutines: \<^verbatim>\<open>asynqServer.Start\<close> returns once the workers run, \<^verbatim>\<open>ListenAndServe\<close> when the server was
  shut down. \<open>sv_redis\<close> holds only what \<^verbatim>\<open>main\<close> itself writes to Redis: what the workers and the API write
  after the launch is not in it (their writes are the subject of the theories of those components), so a
  statement about \<open>sv_redis\<close> is one about the store \<^verbatim>\<open>main\<close> hands over to them.
\<close>

datatype main_pc =
    LoadConfig | Probe | Reconcile | OpenHistory | ChooseApplier | CreateClients | OpenTsdb | SetReady
  | LaunchWorker | LaunchHttp | AwaitSignal | ShutdownWorker | CloseTsdb | ShutdownHttp | CloseRedis | RunDefers

fun pc_index :: "main_pc \<Rightarrow> nat" where
  "pc_index LoadConfig = 0"
| "pc_index Probe = 1"
| "pc_index Reconcile = 2"
| "pc_index OpenHistory = 3"
| "pc_index ChooseApplier = 4"
| "pc_index CreateClients = 5"
| "pc_index OpenTsdb = 6"
| "pc_index SetReady = 7"
| "pc_index LaunchWorker = 8"
| "pc_index LaunchHttp = 9"
| "pc_index AwaitSignal = 10"
| "pc_index ShutdownWorker = 11"
| "pc_index CloseTsdb = 12"
| "pc_index ShutdownHttp = 13"
| "pc_index CloseRedis = 14"
| "pc_index RunDefers = 15"

text \<open>The statements are ordered as \<^verbatim>\<open>main\<close> runs them.\<close>

instantiation main_pc :: linorder
begin

definition less_eq_main_pc :: "main_pc \<Rightarrow> main_pc \<Rightarrow> bool" where
  "less_eq_main_pc x y \<longleftrightarrow> pc_index x \<le> pc_index y"

definition less_main_pc :: "main_pc \<Rightarrow> main_pc \<Rightarrow> bool" where
  "less_main_pc x y \<longleftrightarrow> pc_index x < pc_index y"

instance
proof
  fix x y :: main_pc
  show "x \<le> y \<Longrightarrow> y \<le> x \<Longrightarrow> x = y"
    by (cases x; cases y) (simp_all add: less_eq_main_pc_def)
qed (auto simp: less_eq_main_pc_def less_main_pc_def)

end

datatype goroutine = NotLaunched | Launched | Serving | Returned

record 'w server_state =
  sv_pc :: main_pc
  sv_config :: config
  sv_worker :: goroutine
  sv_http :: goroutine
  sv_redis :: 'w
  sv_trace :: "event list"
  sv_exit :: "nat option"

definition init_server :: "'w \<Rightarrow> 'w server_state" where
  "init_server w = \<lparr>sv_pc = LoadConfig, sv_config = zero_config, sv_worker = NotLaunched, sv_http = NotLaunched,
     sv_redis = w, sv_trace = [], sv_exit = None\<rparr>"

definition emit :: "event list \<Rightarrow> main_pc \<Rightarrow> 'w server_state \<Rightarrow> 'w server_state" where
  "emit es pc s = s\<lparr>sv_trace := sv_trace s @ es, sv_pc := pc\<rparr>"

definition exit_1 :: "'w server_state \<Rightarrow> 'w server_state" where
  "exit_1 s = s\<lparr>sv_exit := Some 1\<rparr>"

text \<open>
  One statement of \<^verbatim>\<open>main\<close>, taken when it returns; \<open>None\<close> if the reconciliation loop never does. A call that
  blocks (the probe, the wait for the signal, the drain of the workers, the HTTP shutdown) is a step the
  schedule may put off for ever, so an execution in which it hangs is one whose last state has that
  statement next. Nothing here says that \<^verbatim>\<open>main\<close> ends: the properties below are about the order of what
  it did, and hold of every execution, hung ones included. A failed reconciliation is logged and ignored.
  The deferred calls run in reverse order.
\<close>

definition main_step :: "'w boot_inputs \<Rightarrow> 'w server_state \<Rightarrow> 'w server_state option" where
  "main_step b s =
     (let cfg = sv_config s in
      case sv_pc s of
          LoadConfig \<Rightarrow>
            Some (case load_config (bi_getenv b) of
                    Inl _ \<Rightarrow> exit_1 s
                  | Inr c \<Rightarrow> emit [] Probe (s\<lparr>sv_config := c\<rparr>))
        | Probe \<Rightarrow>
            (let s' = emit [Probed (cortex_url cfg)] Reconcile s
             in Some (if bi_probe b (cortex_url cfg) = None then s' else exit_1 s'))
        | Reconcile \<Rightarrow>
            (case reconcile_stale_active (bi_parse_time b) (bi_redis b) Live (sv_redis s) of
               None \<Rightarrow> None
             | Some (_, w) \<Rightarrow> Some (emit [Reconciled] OpenHistory (s\<lparr>sv_redis := w\<rparr>)))
        | OpenHistory \<Rightarrow>
            Some (emit (if opens_history b cfg then [HistoryOpened (history_log_path cfg)] else []) ChooseApplier s)
        | ChooseApplier \<Rightarrow> Some (emit [ApplierChosen (choose_applier b)] CreateClients s)
        | CreateClients \<Rightarrow> Some (emit [ClientCreated, InspectorCreated] OpenTsdb s)
        | OpenTsdb \<Rightarrow>
            Some (if bi_open_tsdb b (tsdb_path cfg) = None then emit [TsdbOpened (tsdb_path cfg)] SetReady s else exit_1 s)
        | SetReady \<Rightarrow> Some (emit [BecameReady] LaunchWorker s)
        | LaunchWorker \<Rightarrow> Some (emit [] LaunchHttp (s\<lparr>sv_worker := Launched\<rparr>))
        | LaunchHttp \<Rightarrow> Some (emit [] AwaitSignal (s\<lparr>sv_http := Launched\<rparr>))
        | AwaitSignal \<Rightarrow> Some (emit [SignalReceived] ShutdownWorker s)
        | ShutdownWorker \<Rightarrow> Some (emit [WorkerDrained] CloseTsdb s)
        | CloseTsdb \<Rightarrow> Some (emit [TsdbClosed] ShutdownHttp s)
        | ShutdownHttp \<Rightarrow> Some (emit [HttpShutdown] CloseRedis s)
        | CloseRedis \<Rightarrow> Some (emit [RedisClosed] RunDefers s)
        | RunDefers \<Rightarrow>
            Some ((emit ([InspectorClosed, ClientClosed] @ (if opens_history b cfg then [HistoryClosed] else [])) RunDefers s)
                    \<lparr>sv_exit := Some 0\<rparr>))"

text \<open>
  The steps of the process, until it exits. \<^verbatim>\<open>Start\<close> runs the workers or fails, and then ends the
  process; \<^verbatim>\<open>ListenAndServe\<close> serves and returns once \<^verbatim>\<open>Shutdown\<close> was called (at once if that came first), or
  fails before and ends the process.
\<close>

inductive server_step :: "'w boot_inputs \<Rightarrow> 'w server_state \<Rightarrow> unit \<Rightarrow> 'w server_state \<Rightarrow> bool" for b where
  main: "sv_exit s = None \<Longrightarrow> main_step b s = Some t \<Longrightarrow> server_step b s u t"
| worker_start: "sv_exit s = None \<Longrightarrow> sv_worker s = Launched \<Longrightarrow>
    server_step b s u (s\<lparr>sv_worker := Serving, sv_trace := sv_trace s @ [WorkerStarted]\<rparr>)"
| worker_fail: "sv_exit s = None \<Longrightarrow> sv_worker s = Launched \<Longrightarrow> server_step b s u (exit_1 (s\<lparr>sv_worker := Returned\<rparr>))"
| http_serve: "sv_exit s = None \<Longrightarrow> sv_http s = Launched \<Longrightarrow> HttpShutdown \<notin> set (sv_trace s) \<Longrightarrow>
    server_step b s u (s\<lparr>sv_http := Serving, sv_trace := sv_trace s @ [HttpStarted]\<rparr>)"
| http_return: "sv_exit s = None \<Longrightarrow> sv_http s \<in> {Launched, Serving} \<Longrightarrow> HttpShutdown \<in> set (sv_trace s) \<Longrightarrow>
    server_step b s u (s\<lparr>sv_http := Returned\<rparr>)"
| http_fail: "sv_exit s = None \<Longrightarrow> sv_http s \<in> {Launched, Serving} \<Longrightarrow> HttpShutdown \<notin> set (sv_trace s) \<Longrightarrow>
    server_step b s u (exit_1 (s\<lparr>sv_http := Returned\<rparr>))"

inductive_cases server_stepE: "server_step b s u t"

section \<open>The provider of a task\<close>

text \<open>The handler's \<^verbatim>\<open>OpenProvider\<close> gives the shared provider whatever the path of the task.\<close>

definition shared_open_provider :: "'p \<Rightarrow> string \<Rightarrow> goerr + 'p" where
  "shared_open_provider shared pth = Inr shared"

section \<open>The invariant of the process\<close>

definition before :: "event \<Rightarrow> event \<Rightarrow> event list \<Rightarrow> bool" where
  "before x y tr \<longleftrightarrow> (y \<in> set tr \<longrightarrow> x \<in> set (takeWhile (\<lambda>e. e \<noteq> y) tr))"

lemma before_Nil [simp]: "before x y []"
  by (simp add: before_def)

lemma before_absent [simp]: "y \<notin> set tr \<Longrightarrow> before x y tr"
  by (simp add: before_def)

lemma before_snoc: "before x y (tr @ [e]) \<longleftrightarrow> before x y tr \<and> (e = y \<and> y \<notin> set tr \<longrightarrow> x \<in> set tr)"
proof (cases "y \<in> set tr")
  case True
  then have "takeWhile (\<lambda>e. e \<noteq> y) (tr @ [e]) = takeWhile (\<lambda>e. e \<noteq> y) tr" by (intro takeWhile_append1) auto
  with True show ?thesis by (simp add: before_def)
next
  case False
  then have "takeWhile (\<lambda>e. e \<noteq> y) (tr @ [e]) = tr @ takeWhile (\<lambda>e. e \<noteq> y) [e]" by (intro takeWhile_append2) auto
  with False show ?thesis by (auto simp: before_def)
qed

lemma before_append: "before x y (tr @ es) \<longleftrightarrow> before x y tr \<and> (y \<notin> set tr \<longrightarrow> x \<in> set tr \<or> before x y es)"
proof (induction es rule: rev_induct)
  case (snoc e es)
  show ?case unfolding append_assoc [symmetric] before_snoc snoc by auto
qed simp

lemma before_filter: "P x \<Longrightarrow> P y \<Longrightarrow> before x y (filter P tr) \<longleftrightarrow> before x y tr"
  by (induction tr rule: rev_induct) (auto simp: before_snoc)

text \<open>What \<^verbatim>\<open>main\<close> itself has done when it is about to run a statement.\<close>

definition is_main :: "event \<Rightarrow> bool" where
  "is_main e \<longleftrightarrow> e \<noteq> WorkerStarted \<and> e \<noteq> HttpStarted"

function script :: "'w boot_inputs \<Rightarrow> config \<Rightarrow> main_pc \<Rightarrow> event list" where
  "script b cfg LoadConfig = []"
| "script b cfg Probe = []"
| "script b cfg Reconcile = [Probed (cortex_url cfg)]"
| "script b cfg OpenHistory = script b cfg Reconcile @ [Reconciled]"
| "script b cfg ChooseApplier = script b cfg OpenHistory @ (if opens_history b cfg then [HistoryOpened (history_log_path cfg)] else [])"
| "script b cfg CreateClients = script b cfg ChooseApplier @ [ApplierChosen (choose_applier b)]"
| "script b cfg OpenTsdb = script b cfg CreateClients @ [ClientCreated, InspectorCreated]"
| "script b cfg SetReady = script b cfg OpenTsdb @ [TsdbOpened (tsdb_path cfg)]"
| "script b cfg LaunchWorker = script b cfg SetReady @ [BecameReady]"
| "script b cfg LaunchHttp = script b cfg LaunchWorker"
| "script b cfg AwaitSignal = script b cfg LaunchWorker"
| "script b cfg ShutdownWorker = script b cfg AwaitSignal @ [SignalReceived]"
| "script b cfg CloseTsdb = script b cfg ShutdownWorker @ [WorkerDrained]"
| "script b cfg ShutdownHttp = script b cfg CloseTsdb @ [TsdbClosed]"
| "script b cfg CloseRedis = script b cfg ShutdownHttp @ [HttpShutdown]"
| "script b cfg RunDefers = script b cfg CloseRedis @ [RedisClosed]"
  by (pat_completeness, simp_all)
termination
  by (relation "measure (\<lambda>(b, cfg, pc). pc_index pc)") simp_all

definition defers :: "'w boot_inputs \<Rightarrow> config \<Rightarrow> event list" where
  "defers b cfg = [InspectorClosed, ClientClosed] @ (if opens_history b cfg then [HistoryClosed] else [])"

definition script_inv :: "'w boot_inputs \<Rightarrow> 'w server_state \<Rightarrow> bool" where
  "script_inv b s \<longleftrightarrow>
     filter is_main (sv_trace s) = script b (sv_config s) (sv_pc s) @ (if sv_exit s = Some 0 then defers b (sv_config s) else [])
     \<and> (sv_exit s = Some 0 \<longrightarrow> sv_pc s = RunDefers)"

definition launch_inv :: "'w server_state \<Rightarrow> bool" where
  "launch_inv s \<longleftrightarrow> (sv_worker s \<noteq> NotLaunched \<longrightarrow> LaunchWorker < sv_pc s) \<and> (sv_http s \<noteq> NotLaunched \<longrightarrow> LaunchHttp < sv_pc s)
     \<and> before BecameReady WorkerStarted (sv_trace s) \<and> before BecameReady HttpStarted (sv_trace s)"

definition input_inv :: "'w boot_inputs \<Rightarrow> 'w \<Rightarrow> 'w server_state \<Rightarrow> bool" where
  "input_inv b w0 s \<longleftrightarrow>
     (LoadConfig < sv_pc s \<longrightarrow> load_config (bi_getenv b) = Inr (sv_config s))
     \<and> (Reconcile < sv_pc s \<or> sv_exit s = None \<and> Probe < sv_pc s \<longrightarrow> bi_probe b (cortex_url (sv_config s)) = None)
     \<and> (OpenTsdb < sv_pc s \<longrightarrow> bi_open_tsdb b (tsdb_path (sv_config s)) = None)
     \<and> (if Reconcile < sv_pc s then \<exists>res. reconcile_stale_active (bi_parse_time b) (bi_redis b) Live w0 = Some (res, sv_redis s)
        else sv_redis s = w0)"

definition server_inv :: "'w boot_inputs \<Rightarrow> 'w \<Rightarrow> 'w server_state \<Rightarrow> bool" where
  "server_inv b w0 s \<longleftrightarrow> script_inv b s \<and> launch_inv s \<and> input_inv b w0 s"

lemmas main_step_defs = main_step_def emit_def exit_1_def Let_def less_main_pc_def
lemmas main_step_splits = sum.splits option.splits if_splits prod.splits

lemma script_inv_step: "script_inv b s \<Longrightarrow> server_step b s u t \<Longrightarrow> script_inv b t"
proof (elim server_stepE)
  assume I: "script_inv b s" and m: "main_step b s = Some t" and run: "sv_exit s = None"
  show "script_inv b t"
    by (cases "sv_pc s") (use I m run in \<open>auto simp: script_inv_def is_main_def defers_def main_step_defs split: main_step_splits\<close>)
qed (auto simp: script_inv_def is_main_def exit_1_def)

lemma ready_launched:
  assumes "script_inv b s" "launch_inv s" "sv_worker s \<noteq> NotLaunched \<or> sv_http s \<noteq> NotLaunched"
  shows "BecameReady \<in> set (sv_trace s)"
proof -
  have "LaunchWorker < sv_pc s" using assms(2,3) by (auto simp: launch_inv_def less_main_pc_def)
  then have "BecameReady \<in> set (script b (sv_config s) (sv_pc s))" by (cases "sv_pc s") (simp_all add: less_main_pc_def)
  then have "BecameReady \<in> set (filter is_main (sv_trace s))" using assms(1) by (simp add: script_inv_def)
  then show ?thesis by simp
qed

lemma launch_inv_step: "script_inv b s \<Longrightarrow> launch_inv s \<Longrightarrow> server_step b s u t \<Longrightarrow> launch_inv t"
proof (elim server_stepE)
  assume I: "script_inv b s" "launch_inv s" and m: "main_step b s = Some t"
  show "launch_inv t"
    by (cases "sv_pc s") (use I(2) m in \<open>auto simp: launch_inv_def before_append main_step_defs split: main_step_splits\<close>)
qed (use ready_launched [of b s] in \<open>auto simp: launch_inv_def before_snoc exit_1_def\<close>)

lemma input_inv_step: "input_inv b w0 s \<Longrightarrow> server_step b s u t \<Longrightarrow> input_inv b w0 t"
proof (elim server_stepE)
  assume I: "input_inv b w0 s" and m: "main_step b s = Some t" and run: "sv_exit s = None"
  show "input_inv b w0 t"
    by (cases "sv_pc s") (use I m run in \<open>auto simp: input_inv_def main_step_defs split: main_step_splits\<close>)
qed (auto simp: input_inv_def exit_1_def split: if_splits)

interpretation server: invariant_machine "init_server w0" "server_step b" "server_inv b w0" for b w0
proof
  show "server_inv b w0 (init_server w0)"
    by (simp add: server_inv_def script_inv_def launch_inv_def input_inv_def init_server_def less_main_pc_def)
qed (auto simp: server_inv_def intro: script_inv_step launch_inv_step input_inv_step)

section \<open>Properties of main\<close>

lemma script_ordered:
  assumes "script_inv b s"
    and xy: "(x, y) \<in> {(Reconciled, BecameReady), (SignalReceived, WorkerDrained), (WorkerDrained, TsdbClosed), (TsdbClosed, HttpShutdown),
      (HttpShutdown, RedisClosed)}"
  shows "before x y (sv_trace s)"
proof -
  have "before x y (filter is_main (sv_trace s))"
    using assms unfolding script_inv_def by (cases "sv_pc s") (auto simp: before_def defers_def)
  moreover have "is_main x" "is_main y" using xy by (auto simp: is_main_def)
  ultimately show ?thesis by (simp add: before_filter)
qed

lemma main_events:
  assumes "script_inv b s" "is_main e"
  shows "e \<in> set (sv_trace s) \<longleftrightarrow>
    e \<in> set (script b (sv_config s) (sv_pc s)) \<or> sv_exit s = Some 0 \<and> e \<in> set (defers b (sv_config s))"
proof -
  have "e \<in> set (sv_trace s) \<longleftrightarrow> e \<in> set (filter is_main (sv_trace s))" using assms(2) by simp
  also have "\<dots> \<longleftrightarrow> e \<in> set (script b (sv_config s) (sv_pc s)) \<or> sv_exit s = Some 0 \<and> e \<in> set (defers b (sv_config s))"
    using assms(1) by (auto simp: script_inv_def)
  finally show ?thesis .
qed

lemma ready_means_open:
  assumes "script_inv b s" "input_inv b w0 s" "BecameReady \<in> set (sv_trace s)"
  shows "\<exists>cfg. load_config (bi_getenv b) = Inr cfg \<and> bi_probe b (cortex_url cfg) = None
    \<and> bi_open_tsdb b (tsdb_path cfg) = None \<and> TsdbOpened (tsdb_path cfg) \<in> set (sv_trace s)"
proof -
  note ev = main_events [OF assms(1)]
  have "SetReady < sv_pc s" using assms(3) ev [of BecameReady]
    by (cases "sv_pc s") (auto simp: is_main_def defers_def less_main_pc_def split: if_splits)
  with assms(2) ev [of "TsdbOpened (tsdb_path (sv_config s))"] show ?thesis
    by (cases "sv_pc s") (auto simp: input_inv_def is_main_def less_main_pc_def)
qed

text \<open>
  C17. The order of the effects of the service, in every interleaving and on every outcome: the server is
  ready, and a worker or the HTTP server runs, only after stale entries were reconciled, the endpoint
  was probed and the TSDB was opened; the TSDB is closed only after the signal and the drain of the
  workers, and before the HTTP server and Redis; and a process that exits with status 0 has closed
  everything it opened.
\<close>

theorem boot_and_shutdown_order:
  assumes "reach (init_server w0) (server_step b) s"
  shows "before Reconciled BecameReady (sv_trace s) \<and> before BecameReady WorkerStarted (sv_trace s) \<and> before BecameReady HttpStarted (sv_trace s)
    \<and> before SignalReceived WorkerDrained (sv_trace s) \<and> before WorkerDrained TsdbClosed (sv_trace s)
    \<and> before TsdbClosed HttpShutdown (sv_trace s) \<and> before HttpShutdown RedisClosed (sv_trace s)
    \<and> (BecameReady \<in> set (sv_trace s) \<longrightarrow> (\<exists>cfg. load_config (bi_getenv b) = Inr cfg \<and> bi_probe b (cortex_url cfg) = None
         \<and> bi_open_tsdb b (tsdb_path cfg) = None \<and> TsdbOpened (tsdb_path cfg) \<in> set (sv_trace s)))
    \<and> (sv_exit s = Some 0 \<longrightarrow> {TsdbClosed, HttpShutdown, RedisClosed, InspectorClosed, ClientClosed} \<subseteq> set (sv_trace s)
         \<and> (\<forall>p. HistoryOpened p \<in> set (sv_trace s) \<longrightarrow> HistoryClosed \<in> set (sv_trace s)))"
proof (intro conjI impI)
  have I: "script_inv b s" "launch_inv s" "input_inv b w0 s" using server.reach_inv [OF assms] by (simp_all add: server_inv_def)
  show "before Reconciled BecameReady (sv_trace s)" "before SignalReceived WorkerDrained (sv_trace s)"
    "before WorkerDrained TsdbClosed (sv_trace s)" "before TsdbClosed HttpShutdown (sv_trace s)" "before HttpShutdown RedisClosed (sv_trace s)"
    by (rule script_ordered [OF I(1)], simp)+
  show "before BecameReady WorkerStarted (sv_trace s)" "before BecameReady HttpStarted (sv_trace s)" using I(2) by (simp_all add: launch_inv_def)
  note ev = main_events [OF I(1)]
  show "\<exists>cfg. load_config (bi_getenv b) = Inr cfg \<and> bi_probe b (cortex_url cfg) = None
      \<and> bi_open_tsdb b (tsdb_path cfg) = None \<and> TsdbOpened (tsdb_path cfg) \<in> set (sv_trace s)" if "BecameReady \<in> set (sv_trace s)"
    by (rule ready_means_open [OF I(1,3) that])
  assume e: "sv_exit s = Some 0"
  then have pc: "sv_pc s = RunDefers" using I(1) by (simp add: script_inv_def)
  then show "{TsdbClosed, HttpShutdown, RedisClosed, InspectorClosed, ClientClosed} \<subseteq> set (sv_trace s)"
    using e ev by (simp add: is_main_def defers_def)
  show "\<forall>p. HistoryOpened p \<in> set (sv_trace s) \<longrightarrow> HistoryClosed \<in> set (sv_trace s)"
    using e pc ev by (auto simp: is_main_def defers_def split: if_splits)
qed

text \<open>
  C18. Composition of the boot with the progress store: when a worker has started, the store is what
  \<^verbatim>\<open>ReconcileStaleActive\<close> made of the one found at boot; entries that were not active are untouched, and
  unless the reconciliation reported an error no task is left in state \<^verbatim>\<open>active\<close>, so a task shown as
  active afterwards was started by this process.
\<close>

theorem boot_leaves_no_stale_task:
  assumes "redis_bounded (bi_redis b) view rank" "reach (init_server w0) (server_step b) s" "WorkerStarted \<in> set (sv_trace s)"
  shows "\<exists>n eo. reconcile_stale_active (bi_parse_time b) (bi_redis b) Live w0 = Some ((n, eo), sv_redis s)
    \<and> (\<forall>i. entries view w0 i ''state'' \<noteq> Some ''active'' \<longrightarrow> entries view (sv_redis s) i = entries view w0 i)
    \<and> (eo = None \<longrightarrow> (\<forall>i. entries view (sv_redis s) i ''state'' \<noteq> Some ''active''))"
proof -
  have I: "script_inv b s" "launch_inv s" "input_inv b w0 s" using server.reach_inv [OF assms(2)] by (simp_all add: server_inv_def)
  then have "BecameReady \<in> set (sv_trace s)"
    using assms(3) set_takeWhileD [of BecameReady _ "sv_trace s"] by (auto simp: launch_inv_def before_def)
  then have "Reconcile < sv_pc s"
    using main_events [OF I(1), of BecameReady] by (cases "sv_pc s") (auto simp: is_main_def defers_def less_main_pc_def split: if_splits)
  then obtain res where r: "reconcile_stale_active (bi_parse_time b) (bi_redis b) Live w0 = Some (res, sv_redis s)"
    using I(3) by (auto simp: input_inv_def)
  obtain n eo w' J where e: "reconcile_stale_active (bi_parse_time b) (bi_redis b) Live w0 = Some ((n, eo), w')"
    "J \<subseteq> {i. entries view w0 i ''state'' = Some ''active''}"
    "entries view w' = (\<lambda>i. if i \<in> J then (entries view w0 i)(''state'' \<mapsto> ''failed'', ''error'' \<mapsto> stale_error) else entries view w0 i)"
    "eo = None \<longrightarrow> (\<forall>i. entries view w' i ''state'' \<noteq> Some ''active'')"
    using reconcile_effect [OF assms(1), of "bi_parse_time b" Live w0] by (elim exE conjE) blast
  have same: "w' = sv_redis s" using r e(1) by simp
  have "entries view w' i = entries view w0 i" if "entries view w0 i ''state'' \<noteq> Some ''active''" for i
    using e(2,3) that by auto
  then show ?thesis using e(1,4) unfolding same by (intro exI [of _ n] exI [of _ eo] conjI) auto
qed

section \<open>A concrete process\<close>

text \<open>\<^verbatim>\<open>main\<close> alone, for a number of statements.\<close>

fun main_run :: "'w boot_inputs \<Rightarrow> nat \<Rightarrow> 'w server_state \<Rightarrow> 'w server_state option" where
  "main_run b 0 s = Some s"
| "main_run b (Suc n) s = (if sv_exit s \<noteq> None then None else (case main_step b s of None \<Rightarrow> None | Some t \<Rightarrow> main_run b n t))"

lemma main_run_reach: "main_run b n s = Some t \<Longrightarrow> reach s0 (server_step b) s \<Longrightarrow> reach s0 (server_step b) t"
  by (induction b n s rule: main_run.induct) (auto split: if_splits option.splits intro: reach_step server_step.main)

definition ex_boot :: "mem_redis boot_inputs" where
  "ex_boot = \<lparr>bi_getenv = (\<lambda>_. []), bi_probe = (\<lambda>_. None), bi_redis = mem_client, bi_parse_time = no_time, bi_mkdir_all = (\<lambda>_. None),
     bi_open_file = (\<lambda>_. None), bi_in_cluster = True, bi_from_kubeconfig = (\<lambda>_. False), bi_clientset = True, bi_open_tsdb = (\<lambda>_. None)\<rparr>"

lemma ex_reconcile: "\<exists>res w. reconcile_stale_active no_time mem_client Live ex_redis = Some (res, w)"
  using reconcile_effect [OF mem.redis_bounded_axioms, of no_time Live ex_redis] by blast

lemma ex_booted: "\<exists>s. reach (init_server ex_redis) (server_step ex_boot) s \<and> sv_exit s = None \<and> sv_pc s = AwaitSignal \<and> sv_worker s = Launched"
proof -
  obtain res w where r: "reconcile_stale_active no_time mem_client Live ex_redis = Some (res, w)" using ex_reconcile by blast
  obtain cfg where c: "load_config (\<lambda>_. []) = Inr cfg" by (simp add: config_defs)
  have "\<exists>s. main_run ex_boot 10 (init_server ex_redis) = Some s \<and> sv_exit s = None \<and> sv_pc s = AwaitSignal \<and> sv_worker s = Launched"
    by (simp add: eval_nat_numeral main_step_def emit_def Let_def init_server_def ex_boot_def r c)
  then show ?thesis using main_run_reach [OF _ reach_start] by (elim exE conjE) blast
qed

lemma ex_worker_started:
  "\<exists>s. reach (init_server ex_redis) (server_step ex_boot) s \<and> WorkerStarted \<in> set (sv_trace s) \<and> sv_exit s = None \<and> sv_pc s = AwaitSignal"
proof -
  obtain s where s: "reach (init_server ex_redis) (server_step ex_boot) s" "sv_exit s = None" "sv_pc s = AwaitSignal" "sv_worker s = Launched"
    using ex_booted by (elim exE conjE)
  from reach_step [OF s(1) server_step.worker_start [OF s(2,4)]] s(2,3) show ?thesis by fastforce
qed

lemma ex_shutdown:
  "\<exists>s. reach (init_server ex_redis) (server_step ex_boot) s \<and> WorkerStarted \<in> set (sv_trace s) \<and> sv_exit s = Some 0"
proof -
  obtain s where s: "reach (init_server ex_redis) (server_step ex_boot) s" "WorkerStarted \<in> set (sv_trace s)" "sv_exit s = None" "sv_pc s = AwaitSignal"
    using ex_worker_started by (elim exE conjE)
  have "\<exists>t. main_run ex_boot 6 s = Some t \<and> WorkerStarted \<in> set (sv_trace t) \<and> sv_exit t = Some 0"
    using s(2-4) by (simp add: eval_nat_numeral main_step_def emit_def Let_def)
  then show ?thesis using main_run_reach [OF _ s(1)] by (elim exE conjE) blast
qed

theorem boot_and_shutdown_order_witness:
  "\<exists>s. reach (init_server ex_redis) (server_step ex_boot) s \<and> sv_exit s = Some 0 \<and> TsdbClosed \<in> set (sv_trace s)
     \<and> before WorkerDrained TsdbClosed (sv_trace s) \<and> before BecameReady WorkerStarted (sv_trace s)"
proof -
  obtain s where s: "reach (init_server ex_redis) (server_step ex_boot) s" "sv_exit s = Some 0" using ex_shutdown by (elim exE conjE)
  from boot_and_shutdown_order [OF s(1)] s show ?thesis by (intro exI [of _ s]) simp
qed

theorem boot_leaves_no_stale_task_witness:
  "\<exists>s n eo. reach (init_server ex_redis) (server_step ex_boot) s \<and> WorkerStarted \<in> set (sv_trace s)
     \<and> reconcile_stale_active no_time mem_client Live ex_redis = Some ((n, eo), sv_redis s)"
proof -
  obtain s where s: "reach (init_server ex_redis) (server_step ex_boot) s" "WorkerStarted \<in> set (sv_trace s)" using ex_worker_started by (elim exE conjE)
  have "redis_bounded (bi_redis ex_boot) mem_view (\<lambda>_ cur. scan_slots - cur)" by (simp add: ex_boot_def mem.redis_bounded_axioms)
  from boot_leaves_no_stale_task [OF this s] obtain n eo where
    "reconcile_stale_active (bi_parse_time ex_boot) (bi_redis ex_boot) Live ex_redis = Some ((n, eo), sv_redis s)" by (elim exE conjE)
  then have "reconcile_stale_active no_time mem_client Live ex_redis = Some ((n, eo), sv_redis s)" by (simp add: ex_boot_def)
  with s show ?thesis by (intro exI conjI)
qed

section \<open>Properties of the configuration\<close>

definition int_or :: "string \<Rightarrow> int \<Rightarrow> int" where
  "int_or v dflt = (if v = [] then dflt else atoi_val v)"

definition bad_int :: "string \<Rightarrow> bool" where
  "bad_int v \<longleftrightarrow> v \<noteq> [] \<and> snd (atoi v) \<noteq> None"

lemma int_env_iff: "int_env getenv key dflt = (if bad_int (getenv key) then Inl (wrapf (''invalid '' @ key @ '': '') num_error) else Inr (int_or (getenv key) dflt))"
  by (auto simp: int_env_def bad_int_def int_or_def atoi_val_def split: prod.splits option.splits)

text \<open>
  \<^verbatim>\<open>loadConfig\<close> fails exactly when one of the four numeric variables is set to something that is not
  a 64-bit decimal integer; otherwise a set variable is its value and an unset one its default, so
  the endpoint is never empty.
\<close>

theorem load_config_correct:
  "((\<exists>e. load_config g = Inl e) \<longleftrightarrow> bad_int (g ''MAX_BATCH_BYTES'') \<or> bad_int (g ''WRITER_CONCURRENCY'')
      \<or> bad_int (g ''QUEUE_CONCURRENCY'') \<or> bad_int (g ''ASYNQ_SHUTDOWN_TIMEOUT_SECONDS''))
   \<and> (\<forall>c. load_config g = Inr c \<longrightarrow>
        max_batch_bytes c = int_or (g ''MAX_BATCH_BYTES'') 3145728 \<and> writer_concurrency c = int_or (g ''WRITER_CONCURRENCY'') 4
        \<and> queue_concurrency c = int_or (g ''QUEUE_CONCURRENCY'') 1
        \<and> asynq_shutdown_timeout_seconds c = int_or (g ''ASYNQ_SHUTDOWN_TIMEOUT_SECONDS'') 100
        \<and> cortex_url c = (if g ''CORTEX_URL'' = [] then ''http://localhost:8080'' else g ''CORTEX_URL'') \<and> cortex_url c \<noteq> []
        \<and> (dry_run c \<longleftrightarrow> g ''DRY_RUN'' = ''true'' \<or> g ''DRY_RUN'' = ''1''))"
  by (auto simp: load_config_def int_env_iff env_or_default_def Let_def split: if_splits)

theorem load_config_correct_witness:
  "\<exists>c. load_config (\<lambda>k. if k = ''WRITER_CONCURRENCY'' then ''8'' else []) = Inr c \<and> writer_concurrency c = 8"
proof -
  have a: "atoi ''8'' = (8, None)"
    by (simp add: atoi_def strip_sign_def parse_uint_def digit_val_def max_uint64_def max_int64_def min_int64_def Let_def)
  then have b: "\<not> bad_int ''8''" "int_or ''8'' 4 = 8" by (simp_all add: bad_int_def int_or_def atoi_val_def)
  let ?g = "\<lambda>k. if k = ''WRITER_CONCURRENCY'' then ''8'' else []"
  from load_config_correct [of ?g] b obtain c where "load_config ?g = Inr c"
    by (cases "load_config ?g") (auto simp: bad_int_def)
  with load_config_correct [of ?g] b show ?thesis by auto
qed

end
