(* ===== verification/Service.thy ===== *)
theory Service
  imports Api_Correct Server
begin

text \<open>
  How \<^verbatim>\<open>cmd/server/main.go\<close> wires the parts together: the API from the configuration, the asynq client and
  inspector, the applier and the Redis client; the worker's handler with the shared TSDB.
\<close>

section \<open>Wiring\<close>

definition wire_api :: "config \<Rightarrow> ('q, 'k) deps \<Rightarrow> 'w redis_client \<Rightarrow> ('w, 'q, 'k) server_config" where
  "wire_api cfg d r =
     \<lparr>sc_deps = d, sc_redis = r, sc_tsdb_path = tsdb_path cfg, sc_cortex_url = cortex_url cfg,
      sc_max_batch_bytes = max_batch_bytes cfg, sc_writer_concurrency = writer_concurrency cfg, sc_dry_run = dry_run cfg\<rparr>"

definition wire_worker :: "'p \<Rightarrow> ('w, 'h, 'p) env \<Rightarrow> ('w, 'h, 'p) env" where
  "wire_worker shared E = E\<lparr>env_open := Some (shared_open_provider shared)\<rparr>"

definition wire_ready :: "'w server_state \<Rightarrow> ('q, 'k) maybe_deps \<Rightarrow> ('q, 'k) maybe_deps" where
  "wire_ready s m = m\<lparr>md_ready := Some (\<lambda>_. BecameReady \<in> set (sv_trace s))\<rparr>"

section \<open>What the wiring gives\<close>

text \<open>\<^verbatim>\<open>/readyz\<close> answers 200 only once the configuration was loaded, the endpoint probed and the TSDB opened.\<close>

lemma readyz_200_after_boot:
  assumes "reach (init_server w0) (server_step b) s" "handle_readyz (wire_ready s m) = Reply 200 body"
  shows "\<exists>cfg. load_config (bi_getenv b) = Inr cfg \<and> bi_probe b (cortex_url cfg) = None
    \<and> bi_open_tsdb b (tsdb_path cfg) = None \<and> TsdbOpened (tsdb_path cfg) \<in> set (sv_trace s)"
proof -
  have "script_inv b s" "input_inv b w0 s" using server.reach_inv [OF assms(1)] by (simp_all add: server_inv_def)
  moreover have "BecameReady \<in> set (sv_trace s)" using assms(2) by (simp add: handle_readyz_def wire_ready_def split: if_splits)
  ultimately show ?thesis by (rule ready_means_open)
qed

text \<open>The run of the pipeline that a tenant's task is meant to be, from the configuration of the service.\<close>

definition service_config :: "config \<Rightarrow> string \<Rightarrow> 'p \<Rightarrow> 'p pipeline_config" where
  "service_config cfg pid provider =
     \<lparr>pc_provider = Some provider, pc_tenant_id = pid, pc_cortex_url = cortex_url cfg, pc_max_batch_bytes = max_batch_bytes cfg,
      pc_writer_concurrency = writer_concurrency cfg, pc_dry_run = dry_run cfg, pc_min_time = 0, pc_max_time = 0\<rparr>"

lemma task_config_wired: "task_config (request_payload (wire_api cfg d r) pid) provider = service_config cfg pid provider"
  by (simp add: task_config_def request_payload_def wire_api_def service_config_def)

lemma int_env_range: "int_env g key dflt = Inr n \<Longrightarrow> is_int64 dflt \<Longrightarrow> is_int64 n"
  using atoi_in_range [of "g key"] by (auto simp: int_env_def split: if_splits prod.splits option.splits)

text \<open>The integers of a loaded configuration fit a Go int, so payloads made of it survive the queue.\<close>

lemma load_config_range:
  assumes "load_config g = Inr cfg"
  shows "is_int64 (max_batch_bytes cfg)" "is_int64 (writer_concurrency cfg)"
proof -
  obtain m w q t where ints: "int_env g ''MAX_BATCH_BYTES'' (3 * 1024 * 1024) = Inr m" "int_env g ''WRITER_CONCURRENCY'' 4 = Inr w"
    "int_env g ''QUEUE_CONCURRENCY'' 1 = Inr q" "int_env g ''ASYNQ_SHUTDOWN_TIMEOUT_SECONDS'' 100 = Inr t"
    using assms unfolding load_config_def by (simp split: sum.splits)
  with assms have "max_batch_bytes cfg = m \<and> writer_concurrency cfg = w"
    unfolding load_config_def by (simp add: Let_def split: if_splits) (drule sym, simp)+
  moreover have "is_int64 m" by (rule int_env_range [OF ints(1)]) (simp add: wire_eval)
  moreover have "is_int64 w" by (rule int_env_range [OF ints(2)]) (simp add: wire_eval)
  ultimately show "is_int64 (max_batch_bytes cfg)" "is_int64 (writer_concurrency cfg)" by simp_all
qed

lemma wired_payload_ok:
  "load_config g = Inr cfg \<Longrightarrow> valid_utf8 pid \<Longrightarrow> valid_utf8 (tsdb_path cfg) \<Longrightarrow> valid_utf8 (cortex_url cfg) \<Longrightarrow>
     payload_ok (request_payload (wire_api cfg d r) pid)"
  using load_config_range [of g cfg] by (simp add: payload_ok_def request_payload_def wire_api_def)

end
