(* ===== verification/Remotewrite.thy ===== *)
theory Remotewrite
  imports Batcher Strconv
begin

text \<open>
  The remote-write client (\<^verbatim>\<open>internal/remotewrite/writer.go\<close>) and the boot-time probe
  (\<^verbatim>\<open>internal/cortexcheck/probe.go\<close>). Protobuf, snappy, the URL check of \<^verbatim>\<open>http.NewRequest\<close> and the
  network are parameters; a request and its answer are data.
\<close>

section \<open>HTTP\<close>

record http_request =
  rq_method :: string
  rq_url :: string
  rq_headers :: "(string \<times> string) list"
  rq_body :: string

record http_response =
  rs_status :: nat
  rs_body :: string

text \<open>What the client gets from outside: \<open>nw_do\<close> is \<^verbatim>\<open>http.Client.Do\<close> under a context and a timeout.\<close>

record 'n net =
  nw_marshal :: "batch \<Rightarrow> goerr + string"
  nw_snappy :: "string \<Rightarrow> string"
  nw_check_url :: "string \<Rightarrow> goerr option"
  nw_do :: "ctx \<Rightarrow> int \<Rightarrow> http_request \<Rightarrow> ('n, http_response) call"

definition second :: int where "second = 1000000000"

section \<open>The writer\<close>

record writer_config =
  wc_url :: string
  wc_timeout :: int

definition new_writer :: "writer_config \<Rightarrow> writer_config" where
  "new_writer cfg = (if wc_timeout cfg = 0 then cfg\<lparr>wc_timeout := 30 * second\<rparr> else cfg)"

definition build_write_request :: "'n net \<Rightarrow> batch \<Rightarrow> goerr + string" where
  "build_write_request N series = (case nw_marshal N series of
     Inl e \<Rightarrow> Inl (wrapf ''marshal WriteRequest: '' e)
   | Inr data \<Rightarrow> Inr (nw_snappy N data))"

definition write_headers :: "(string \<times> string) list" where
  "write_headers = [(''Content-Type'', ''application/x-protobuf''), (''Content-Encoding'', ''snappy''),
     (''X-Prometheus-Remote-Write-Version'', ''0.1.0'')]"

definition body_limit :: nat where "body_limit = 512"

definition send_result :: "http_response \<Rightarrow> goerr option" where
  "send_result resp =
     (if rs_status resp div 100 = 2 then None
      else Some (errors_new (''remote write failed: HTTP '' @ itoa (int (rs_status resp)) @ '': '' @ take body_limit (rs_body resp))))"

definition writer_send :: "'n net \<Rightarrow> writer_config \<Rightarrow> ctx \<Rightarrow> batch \<Rightarrow> 'n \<Rightarrow> goerr option \<times> 'n" where
  "writer_send N wc c series n = (case build_write_request N series of
     Inl e \<Rightarrow> (Some e, n)
   | Inr compressed \<Rightarrow>
       (case nw_check_url N (wc_url wc) of
          Some e \<Rightarrow> (Some (wrapf ''creating request: '' e), n)
        | None \<Rightarrow>
            (case nw_do N c (wc_timeout wc)
                    \<lparr>rq_method = ''POST'', rq_url = wc_url wc, rq_headers = write_headers, rq_body = compressed\<rparr> n of
               (Inl e, n') \<Rightarrow> (Some (wrapf ''remote write POST: '' e), n')
             | (Inr resp, n') \<Rightarrow> (send_result resp, n'))))"

section \<open>The probe\<close>

definition probe_headers :: "(string \<times> string) list" where
  "probe_headers = write_headers @ [(''X-Scope-OrgID'', ''__probe__'')]"

definition probe :: "'n net \<Rightarrow> ctx \<Rightarrow> string \<Rightarrow> 'n \<Rightarrow> goerr option \<times> 'n" where
  "probe N c url n =
     (if \<not> has_suffix url ''/push'' then
        (Some (errors_new ''CORTEX_URL must end with /push (cortex-tenant v2 requirement)''), n)
      else case nw_marshal N [] of
        Inl e \<Rightarrow> (Some (wrapf ''CORTEX_URL probe marshal failed: '' e), n)
      | Inr data \<Rightarrow>
          (case nw_check_url N url of
             Some e \<Rightarrow> (Some (wrapf ''CORTEX_URL probe: build request: '' e), n)
           | None \<Rightarrow>
               (case nw_do N c (10 * second)
                       \<lparr>rq_method = ''POST'', rq_url = url, rq_headers = probe_headers, rq_body = nw_snappy N data\<rparr> n of
                  (Inl e, n') \<Rightarrow> (Some (wrapf ''CORTEX_URL probe failed: '' e), n')
                | (Inr resp, n') \<Rightarrow>
                    if rs_status resp = 404
                    then (Some (errors_new (''CORTEX_URL probe returned 404 (path not found '' @ [CHR 0xE2, CHR 0x80, CHR 0x94] @ '' check cortex-tenant deployment): '' @ url)), n')
                    else (None, n'))))"

section \<open>Properties\<close>

text \<open>
  \<^verbatim>\<open>Send\<close> returns nil exactly when the batch was marshalled, the URL is valid and the endpoint
  answered the snappy-compressed batch with a status from 200 to 299.
\<close>

theorem send_nil_iff_2xx:
  "fst (writer_send N wc c series n) = None \<longleftrightarrow>
     (\<exists>data resp n'. nw_marshal N series = Inr data \<and> nw_check_url N (wc_url wc) = None
        \<and> nw_do N c (wc_timeout wc) \<lparr>rq_method = ''POST'', rq_url = wc_url wc,
            rq_headers = [(''Content-Type'', ''application/x-protobuf''), (''Content-Encoding'', ''snappy''),
              (''X-Prometheus-Remote-Write-Version'', ''0.1.0'')], rq_body = nw_snappy N data\<rparr> n = (Inr resp, n')
        \<and> 200 \<le> rs_status resp \<and> rs_status resp < 300)"
proof -
  have "s div 100 = 2 \<longleftrightarrow> 200 \<le> s \<and> s < 300" for s :: nat by auto
  then show ?thesis
    by (auto simp: writer_send_def build_write_request_def send_result_def write_headers_def split: sum.splits option.splits prod.splits)
qed

text \<open>
  A refused batch is reported with its status code and at most 512 bytes of the answer, however
  long the answer is.
\<close>

theorem send_error_is_bounded:
  assumes "nw_marshal N series = Inr data" "nw_check_url N (wc_url wc) = None"
    and "nw_do N c (wc_timeout wc) \<lparr>rq_method = ''POST'', rq_url = wc_url wc, rq_headers = write_headers, rq_body = nw_snappy N data\<rparr> n = (Inr resp, n')"
    and "rs_status resp < 200 \<or> 300 \<le> rs_status resp"
  shows "\<exists>e. writer_send N wc c series n = (Some e, n')
    \<and> prefix (''remote write failed: HTTP '' @ itoa (int (rs_status resp)) @ '': '') (err_text e)
    \<and> length (err_text e) \<le> 32 + length (itoa (int (rs_status resp))) + 512"
proof -
  have "rs_status resp div 100 \<noteq> 2" using assms(4) by auto
  with assms(1-3) show ?thesis
    by (auto simp: writer_send_def build_write_request_def send_result_def body_limit_def intro!: exI)
qed

definition ex_net :: "http_response \<Rightarrow> nat net" where
  "ex_net resp = \<lparr>nw_marshal = (\<lambda>_. Inr ''pb''), nw_snappy = (\<lambda>s. s), nw_check_url = (\<lambda>_. None),
     nw_do = (\<lambda>c t rq n. (Inr resp, n + 1))\<rparr>"

theorem send_error_is_bounded_witness:
  "\<exists>e. writer_send (ex_net \<lparr>rs_status = 500, rs_body = replicate 9999 (CHR ''x'')\<rparr>) (new_writer \<lparr>wc_url = ''http://c/push'', wc_timeout = 0\<rparr>) Live [] 0 = (Some e, 1)
    \<and> length (err_text e) \<le> 32 + length (itoa 500) + 512"
  using send_error_is_bounded [of "ex_net \<lparr>rs_status = 500, rs_body = replicate 9999 (CHR ''x'')\<rparr>" "[]" "''pb''"
      "new_writer \<lparr>wc_url = ''http://c/push'', wc_timeout = 0\<rparr>" Live 0 "\<lparr>rs_status = 500, rs_body = replicate 9999 (CHR ''x'')\<rparr>" 1]
  by (auto simp: ex_net_def)

text \<open>
  The probe passes exactly when the URL ends in \<^verbatim>\<open>/push\<close> and the endpoint answers the empty write
  request with any status but 404; without the suffix nothing is sent.
\<close>

theorem probe_passes_iff:
  "(fst (probe N c url n) = None \<longleftrightarrow>
     (\<exists>p. url = p @ ''/push'') \<and> nw_check_url N url = None
     \<and> (\<exists>data resp n'. nw_marshal N [] = Inr data
          \<and> nw_do N c (10 * second) \<lparr>rq_method = ''POST'', rq_url = url, rq_headers = probe_headers, rq_body = nw_snappy N data\<rparr> n = (Inr resp, n')
          \<and> rs_status resp \<noteq> 404))
   \<and> ((\<nexists>p. url = p @ ''/push'') \<longrightarrow> snd (probe N c url n) = n)"
  by (auto simp: probe_def has_suffix_iff split: sum.splits option.splits prod.splits)

theorem probe_passes_iff_witness:
  "(\<nexists>p. ''http://localhost:8080'' = p @ ''/push'')
   \<and> snd (probe (ex_net \<lparr>rs_status = 200, rs_body = []\<rparr>) Live ''http://localhost:8080'' 7) = 7"
proof -
  have "\<nexists>p. ''http://localhost:8080'' = p @ ''/push''" by (subst has_suffix_iff [symmetric]) (simp add: has_suffix_def)
  with probe_passes_iff [of "ex_net \<lparr>rs_status = 200, rs_body = []\<rparr>" Live "''http://localhost:8080''" 7] show ?thesis by blast
qed

end
