(* ===== verification/Networked.thy ===== *)
theory Networked
  imports Pipeline_Correct Remotewrite
begin

text \<open>
  The pipeline with its remote-write client: the writers of \<open>Pipeline\<close> succeed or fail as the schedule
  says; here each \<^verbatim>\<open>Send\<close> is \<open>writer_send\<close> on a network that records every request it is handed, with the
  answer. A \<^verbatim>\<open>Send\<close> takes effect on the network when it returns. The networked machine is simulated by the
  pipeline, so every property of the pipeline holds of it, and what counts as delivered is what the endpoint
  acknowledged.
\<close>

section \<open>A network that records\<close>

type_synonym exchange = "http_request \<times> (goerr + http_response)"

definition recording :: "'n net \<Rightarrow> ('n \<times> exchange list) net" where
  "recording N = \<lparr>nw_marshal = nw_marshal N, nw_snappy = nw_snappy N, nw_check_url = nw_check_url N,
     nw_do = (\<lambda>c t rq (n, log). case nw_do N c t rq n of (x, n') \<Rightarrow> (x, (n', log @ [(rq, x)])))\<rparr>"

definition acked :: "exchange \<Rightarrow> bool" where
  "acked x \<longleftrightarrow> (case snd x of Inl _ \<Rightarrow> False | Inr resp \<Rightarrow> 200 \<le> rs_status resp \<and> rs_status resp < 300)"

section \<open>The machine\<close>

definition pipeline_writer :: "'p pipeline_config \<Rightarrow> writer_config" where
  "pipeline_writer cfg = new_writer \<lparr>wc_url = pc_cortex_url cfg, wc_timeout = 0\<rparr>"

definition batch_request :: "'n net \<Rightarrow> writer_config \<Rightarrow> batch \<Rightarrow> http_request option" where
  "batch_request N wc b = (case build_write_request N b of
     Inl _ \<Rightarrow> None
   | Inr body \<Rightarrow> Some \<lparr>rq_method = ''POST'', rq_url = wc_url wc, rq_headers = write_headers, rq_body = body\<rparr>)"

record 'n nstate =
  ns_pipe :: pstate
  ns_net :: "'n \<times> exchange list"

abbreviation ns_log :: "'n nstate \<Rightarrow> exchange list" where
  "ns_log s \<equiv> snd (ns_net s)"

definition init_net :: "params \<Rightarrow> 'n \<Rightarrow> 'n nstate" where
  "init_net P n = \<lparr>ns_pipe = init_state P, ns_net = (n, [])\<rparr>"

definition is_send_end :: "action \<Rightarrow> bool" where
  "is_send_end a \<longleftrightarrow> (\<exists>i. a = WriterSent i) \<or> (\<exists>i e. a = WriterFail i e)"

text \<open>\<open>c\<close> is the group's context as the call sees it: live, or done at some point of the call.\<close>

inductive net_step :: "params \<Rightarrow> 'n net \<Rightarrow> writer_config \<Rightarrow> 'n nstate \<Rightarrow> action \<Rightarrow> 'n nstate \<Rightarrow> bool" for P N wc where
  quiet: "enabled P a (ns_pipe s) \<Longrightarrow> \<not> is_send_end a \<Longrightarrow> net_step P N wc s a (s\<lparr>ns_pipe := perform P a (ns_pipe s)\<rparr>)"
| sent: "enabled P (WriterSent i) (ns_pipe s) \<Longrightarrow>
    writer_send (recording N) wc c (in_hand (writers (ns_pipe s) ! i)) (ns_net s) = (None, n') \<Longrightarrow>
    net_step P N wc s (WriterSent i) \<lparr>ns_pipe = perform P (WriterSent i) (ns_pipe s), ns_net = n'\<rparr>"
| refused: "enabled P (WriterFail i e) (ns_pipe s) \<Longrightarrow>
    writer_send (recording N) wc c (in_hand (writers (ns_pipe s) ! i)) (ns_net s) = (Some e, n') \<Longrightarrow>
    net_step P N wc s (WriterFail i e) \<lparr>ns_pipe = perform P (WriterFail i e) (ns_pipe s), ns_net = n'\<rparr>"

inductive_cases net_stepE: "net_step P N wc s a t"

section \<open>Simulation and invariant\<close>

interpretation networked: simulation "init_net P n" "net_step P N wc" "init_state P" "pipeline_step P" ns_pipe for P n N wc
proof
  fix c d :: "'a nstate" and a
  show "net_step P N wc c a d \<Longrightarrow> pipeline_step P (ns_pipe c) a (ns_pipe d)"
    by (erule net_stepE) (auto simp: pipeline_step_iff)
qed (simp add: init_net_def)

text \<open>One \<^verbatim>\<open>Send\<close> on the recording network: one acknowledged request if it returns nil, none if it fails.\<close>

lemma send_ok_recorded:
  assumes "writer_send (recording N) wc c b n = (None, n')"
  shows "\<exists>rq x. snd n' = snd n @ [(rq, x)] \<and> acked (rq, x) \<and> batch_request N wc b = Some rq"
  using assms
  by (auto simp: writer_send_def recording_def batch_request_def build_write_request_def send_result_def acked_def
      split: sum.splits option.splits prod.splits if_splits)

lemma send_err_recorded:
  assumes "writer_send (recording N) wc c b n = (Some e, n')"
  shows "filter acked (snd n') = filter acked (snd n)"
  using assms
  by (auto simp: writer_send_def recording_def batch_request_def build_write_request_def send_result_def acked_def
      split: sum.splits option.splits prod.splits if_splits)

lemma perform_delivered: "\<not> is_send_end a \<Longrightarrow> delivered (perform P a s) = delivered s"
  by (cases a) (auto simp: is_send_end_def Let_def split: prod.splits)

definition net_inv :: "params \<Rightarrow> 'n net \<Rightarrow> writer_config \<Rightarrow> 'n nstate \<Rightarrow> bool" where
  "net_inv P N wc s \<longleftrightarrow> pipeline_inv P (ns_pipe s)
     \<and> (p_dry_run P \<longrightarrow> ns_log s = [])
     \<and> image_mset (Some \<circ> fst) (mset (filter acked (ns_log s))) = image_mset (batch_request N wc) (mset (delivered (ns_pipe s)))"

lemma net_inv_step: "net_inv P N wc s \<Longrightarrow> net_step P N wc s a t \<Longrightarrow> net_inv P N wc t"
proof -
  assume I: "net_inv P N wc s" and st: "net_step P N wc s a t"
  have inv: "pipeline_inv P (ns_pipe t)"
    using I networked.abs_step [OF st] by (auto simp: net_inv_def intro: pipeline_inv_step)
  from st show ?thesis
  proof cases
    case (sent i c n')
    with I inv send_ok_recorded [OF sent(4)] show ?thesis by (auto simp: net_inv_def)
  next
    case (refused i e c n')
    with I inv send_err_recorded [OF refused(4)] show ?thesis by (auto simp: net_inv_def)
  qed (use I inv in \<open>auto simp: net_inv_def perform_delivered\<close>)
qed

text \<open>Whatever the network answers, a writer that sends can go on: its \<^verbatim>\<open>Send\<close> returns nil or an error.\<close>

lemma net_progress:
  assumes "errgroup (p_group P)" "pipeline_inv P (ns_pipe s)" "\<not> all_returned (ns_pipe s)"
  shows "\<exists>a t. net_step P N wc s a t"
proof -
  obtain a where a: "enabled P a (ns_pipe s)"
    using pipeline_progress [of P "ns_pipe s"] assms by (auto simp: pipeline_inv_def)
  show ?thesis
  proof (cases "is_send_end a")
    case True
    then obtain i where i: "enabled P (WriterSent i) (ns_pipe s)" using a by (auto simp: is_send_end_def)
    then have fail: "enabled P (WriterFail i e) (ns_pipe s)" for e by simp
    obtain r n' where r: "writer_send (recording N) wc Live (in_hand (writers (ns_pipe s) ! i)) (ns_net s) = (r, n')" by (rule prod.exhaust)
    show ?thesis
      using net_step.sent [OF i, of N wc Live n'] net_step.refused [OF fail, of N wc Live _ n'] r by (cases r) blast+
  qed (use net_step.quiet [OF a] in blast)
qed

interpretation net: invariant_machine "init_net P n" "net_step P N wc" "net_inv P N wc" for P n N wc
proof
  show "net_inv P N wc (init_net P n)" by (simp add: net_inv_def init_net_def inv_start init_state_def) (simp flip: init_state_def add: inv_start)
qed (rule net_inv_step)

text \<open>The batches no request was made for yet: those writers are about to send, queued, or still to come.\<close>

definition unsent :: "params \<Rightarrow> pstate \<Rightarrow> nat" where
  "unsent P s = sum_list (map (\<lambda>w. if is_sending w then 1 else 0) (writers s)) + length (batch_ch s) + length (future P s)"

lemma sending_update:
  "i < length ws \<Longrightarrow> sum_list (map (\<lambda>w. if is_sending w then 1 else 0 :: nat) (ws[i := w])) + (if is_sending (ws ! i) then 1 else 0)
     = sum_list (map (\<lambda>w. if is_sending w then 1 else 0) ws) + (if is_sending w then 1 else 0)"
  by (rule sum_list_map_update)

lemma unsent_step: "enabled P a s \<Longrightarrow> unsent P (perform P a s) + (if is_send_end a then 1 else 0) \<le> unsent P s"
proof (cases a)
  case ReaderSend
  assume "enabled P a s"
  with ReaderSend show ?thesis by (cases "rd_todo s") (simp_all add: unsent_def future_def is_send_end_def)
next
  case BatcherRecv
  assume "enabled P a s"
  with BatcherRecv show ?thesis
    by (simp add: unsent_def future_def is_send_end_def Let_def batch_run_snoc_hd split: prod.splits)
next
  case BatcherSend
  assume "enabled P a s"
  with BatcherSend show ?thesis by (cases "bt_out s") (simp_all add: unsent_def future_def is_send_end_def)
next
  case BatcherEof
  assume "enabled P a s"
  with BatcherEof batch_run_flushes [of "bt_state s" "p_sz P" "budget P" "rd_todo s"] show ?thesis
    by (simp add: unsent_def future_def is_send_end_def)
next
  case (WriterRecv i)
  assume "enabled P a s"
  with WriterRecv sending_update [of i "writers s" "Sending (hd (batch_ch s))"] show ?thesis
    by (cases "batch_ch s") (simp_all add: unsent_def future_def is_send_end_def is_sending_def)
next
  case (WriterSkip i)
  assume "enabled P a s"
  with WriterSkip sending_update [of i "writers s" "Counting (in_hand (writers s ! i))"] show ?thesis
    by (simp add: unsent_def future_def is_send_end_def is_sending_def split: writer.splits)
next
  case (WriterSent i)
  assume "enabled P a s"
  with WriterSent sending_update [of i "writers s" "Counting (in_hand (writers s ! i))"] show ?thesis
    by (simp add: unsent_def future_def is_send_end_def is_sending_def split: writer.splits)
next
  case (WriterCount i)
  assume "enabled P a s"
  with WriterCount sending_update [of i "writers s" Idle] show ?thesis
    by (simp add: unsent_def future_def is_send_end_def is_sending_def is_counting_def Let_def split: writer.splits)
next
  case (WriterFail i e)
  assume "enabled P a s"
  with WriterFail sending_update [of i "writers s" WriterReturned] show ?thesis
    by (simp add: unsent_def future_def is_send_end_def is_sending_def split: writer.splits)
next
  case (WriterEof i)
  assume "enabled P a s"
  with WriterEof sending_update [of i "writers s" WriterReturned] show ?thesis
    by (simp add: unsent_def future_def is_send_end_def is_sending_def split: writer.splits)
qed (auto simp: unsent_def future_def is_send_end_def)

lemma send_one_request: "writer_send (recording N) wc c b n = (r, n') \<Longrightarrow> length (snd n') \<le> length (snd n) + 1"
  by (auto simp: writer_send_def recording_def build_write_request_def split: sum.splits option.splits prod.splits)

definition request_inv :: "params \<Rightarrow> 'n nstate \<Rightarrow> bool" where
  "request_inv P s \<longleftrightarrow> length (ns_log s) + unsent P (ns_pipe s) \<le> length (all_batches P)"

lemma request_inv_step: "request_inv P s \<Longrightarrow> net_step P N wc s a t \<Longrightarrow> request_inv P t"
proof -
  assume I: "request_inv P s" and st: "net_step P N wc s a t"
  have p: "unsent P (ns_pipe t) + (if is_send_end a then 1 else 0) \<le> unsent P (ns_pipe s)"
    using networked.abs_step [OF st] unsent_step [of P a "ns_pipe s"] by (simp add: pipeline_step_iff)
  from st have "length (ns_log t) \<le> length (ns_log s) + (if is_send_end a then 1 else 0)"
  proof cases
    case (sent i c n')
    with send_one_request [OF sent(4)] show ?thesis by (simp add: is_send_end_def)
  next
    case (refused i e c n')
    with send_one_request [OF refused(4)] show ?thesis by (simp add: is_send_end_def)
  qed simp
  with I p show ?thesis by (simp add: request_inv_def)
qed

interpretation requests: invariant_machine "init_net P n" "net_step P N wc" "request_inv P" for P n N wc
proof
  have "sum_list (map (\<lambda>w. if is_sending w then 1 else 0 :: nat) (replicate k Idle)) = 0" for k
    by (induction k) (simp_all add: is_sending_def)
  then show "request_inv P (init_net P n)"
    by (simp add: request_inv_def init_net_def init_state_def unsent_def future_def all_batches_def batches_of_def)
qed (rule request_inv_step)

sublocale grouped_pipeline \<subseteq> net_run: terminating_machine "init_net P n" "net_step P N wc" "net_inv P N wc"
  "\<lambda>s. all_returned (ns_pipe s)" "\<lambda>s. work_left P (ns_pipe s)" for n N wc
proof
  fix s a t
  show "net_step P N wc s a t \<Longrightarrow> work_left P (ns_pipe t) < work_left P (ns_pipe s)"
    using networked.abs_step [of P N wc s a t] by (auto simp: pipeline_step_iff work_left_step)
  show "net_inv P N wc s \<Longrightarrow> \<not> all_returned (ns_pipe s) \<Longrightarrow> \<exists>a t. net_step P N wc s a t"
    by (rule net_progress [OF errgroup_axioms]) (simp_all add: net_inv_def)
qed

context grouped_pipeline begin

lemma net_path_bound: "path (net_step P N wc) (init_net P n) as t \<Longrightarrow> length as \<le> work_left P (init_state P)"
  by (drule net_run.path_bound [OF net_run.inv_start]) (simp add: init_net_def)

lemma net_can_finish: "reach (init_net P n) (net_step P N wc) s \<Longrightarrow> \<exists>as t. path (net_step P N wc) s as t \<and> all_returned (ns_pipe t)"
  by (rule net_run.can_finish) (rule net_run.reach_inv)

end

section \<open>A concrete run\<close>

text \<open>On a network that takes every batch, each schedule without failures of the pipeline is one of the networked machine.\<close>

lemma net_follows:
  assumes "\<And>b n. \<exists>n'. writer_send (recording N) wc Live b n = (None, n')" "list_all (\<lambda>a. \<forall>i e. a \<noteq> WriterFail i e) as"
    and "run_schedule P as (ns_pipe s) = Some t"
  shows "\<exists>s'. path (net_step P N wc) s as s' \<and> ns_pipe s' = t"
  using assms(2,3)
proof (induction as arbitrary: s)
  case (Cons a as)
  from Cons.prems(2) have a: "enabled P a (ns_pipe s)" "run_schedule P as (perform P a (ns_pipe s)) = Some t" by (auto split: if_splits)
  have "\<exists>u. net_step P N wc s a u \<and> ns_pipe u = perform P a (ns_pipe s)"
  proof (cases "is_send_end a")
    case True
    with Cons.prems(1) obtain i where i: "a = WriterSent i" by (auto simp: is_send_end_def)
    obtain n' where "writer_send (recording N) wc Live (in_hand (writers (ns_pipe s) ! i)) (ns_net s) = (None, n')" using assms(1) by blast
    from net_step.sent [OF a(1) [unfolded i] this] show ?thesis unfolding i by (intro exI conjI) (assumption, rule nstate.select_convs)
  qed (use net_step.quiet [OF a(1)] in fastforce)
  then obtain u where u: "net_step P N wc s a u" "ns_pipe u = perform P a (ns_pipe s)" by blast
  from Cons.IH [of u] Cons.prems(1) a(2) u show ?case by auto
qed simp

definition ok_net :: "nat net" where
  "ok_net = ex_net \<lparr>rs_status = 204, rs_body = []\<rparr>"

lemma ok_net_sends: "\<exists>n'. writer_send (recording ok_net) wc c b n = (None, n')"
  by (cases n) (simp add: ok_net_def ex_net_def recording_def writer_send_def build_write_request_def send_result_def)

lemma ex_networked:
  "\<exists>s. reach (init_net ex_params 0) (net_step ex_params ok_net (pipeline_writer ex_pipeline_cfg)) s \<and> all_returned (ns_pipe s) \<and> g_errs (ns_pipe s) = []"
proof -
  obtain t where t: "run_schedule ex_params ex_schedule (init_state ex_params) = Some t" "all_returned t" "g_errs t = []" using ex_run by blast
  have "list_all (\<lambda>a. \<forall>i e. a \<noteq> WriterFail i e) ex_schedule" by (simp add: ex_schedule_def)
  from net_follows [OF ok_net_sends this, of ex_params "init_net ex_params 0" t "pipeline_writer ex_pipeline_cfg"] t
  obtain s where "path (net_step ex_params ok_net (pipeline_writer ex_pipeline_cfg)) (init_net ex_params 0) ex_schedule s" "ns_pipe s = t"
    by (auto simp: init_net_def)
  with t show ?thesis by (intro exI [of _ s]) (simp add: path_reach [OF reach_start])
qed

section \<open>Properties\<close>

text \<open>
  C3. What the endpoint acknowledged, under every schedule and network, from the record of every request
  the network was handed: a dry run makes no request. Otherwise the requests answered with a status
  from 200 to 299 are, one for one, the encodings of the batches whose \<^verbatim>\<open>Send\<close> returned nil; never more
  batches are counted as sent than were acknowledged, and equally many once every goroutine has
  returned; and if \<^verbatim>\<open>Wait\<close> then returns nil, those batches hold exactly the samples that were read.
\<close>

theorem success_is_acknowledged:
  assumes "errgroup (p_group P)" "reach (init_net P n) (net_step P N wc) s"
  shows "(p_dry_run P \<longrightarrow> ns_log s = [])
    \<and> image_mset (Some \<circ> fst) (mset (filter acked (ns_log s))) = image_mset (batch_request N wc) (mset (delivered (ns_pipe s)))
    \<and> (\<not> p_dry_run P \<longrightarrow>
        batches_sent (stats (ns_pipe s)) \<le> length (filter acked (ns_log s))
        \<and> (all_returned (ns_pipe s) \<longrightarrow> batches_sent (stats (ns_pipe s)) = length (filter acked (ns_log s)))
        \<and> (all_returned (ns_pipe s) \<and> eg_wait (p_group P) (g_errs (ns_pipe s)) = None \<longrightarrow>
             mset (concat (map batch_stream (delivered (ns_pipe s)))) = mset (concat (map series_stream (p_series P)))))"
proof -
  have inv: "net_inv P N wc s" by (rule net.reach_inv [OF assms(2)])
  have pipe: "reachable P (ns_pipe s)" by (rule networked.reach_abs [OF assms(2)])
  have acks: "length (filter acked (ns_log s)) = length (delivered (ns_pipe s))"
    using inv unfolding net_inv_def by (metis size_image_mset size_mset)
  have sent: "batches_sent (stats (ns_pipe s)) = length (counted (ns_pipe s))"
    using inv by (simp add: net_inv_def pipeline_inv_def inv_counts_def)
  have "length (counted (ns_pipe s)) \<le> length (delivered (ns_pipe s))" if "\<not> p_dry_run P"
    using inv that by (auto simp: net_inv_def pipeline_inv_def inv_delivered_def dest: arg_cong [of _ _ size])
  moreover have fin: "mset (delivered (ns_pipe s)) = mset (counted (ns_pipe s))" if "\<not> p_dry_run P" "all_returned (ns_pipe s)"
    using finished_delivered [OF pipe that(2)] that(1) by simp
  moreover have "mset (concat (map batch_stream (delivered (ns_pipe s)))) = mset (concat (map series_stream (p_series P)))"
    if "\<not> p_dry_run P" "all_returned (ns_pipe s)" "eg_wait (p_group P) (g_errs (ns_pipe s)) = None"
    using finished_clean(1) [OF pipe that(2)] that(3) fin [OF that(1,2)] delivered_stream_eq [of "delivered (ns_pipe s)" "all_batches P"]
    by (simp add: errgroup.wait_None_iff [OF assms(1)] all_batches_def batches_of_stream)
  ultimately show ?thesis using inv acks sent mset_eq_length [OF fin] by (simp add: net_inv_def)
qed

theorem success_is_acknowledged_witness:
  "\<exists>s. reach (init_net ex_params 0) (net_step ex_params ok_net (pipeline_writer ex_pipeline_cfg)) s \<and> \<not> p_dry_run ex_params
     \<and> mset (concat (map batch_stream (delivered (ns_pipe s)))) = mset (series_stream ex_series)
     \<and> batches_sent (stats (ns_pipe s)) = length (filter acked (ns_log s))"
proof -
  obtain s where s: "reach (init_net ex_params 0) (net_step ex_params ok_net (pipeline_writer ex_pipeline_cfg)) s" "all_returned (ns_pipe s)" "g_errs (ns_pipe s) = []"
    using ex_networked by blast
  have dry: "\<not> p_dry_run ex_params" by (simp add: ex_params_def run_params_def ex_pipeline_cfg_def)
  from success_is_acknowledged [OF ex_grouped.errgroup_axioms s(1)] s dry show ?thesis
    by (intro exI [of _ s]) (simp add: ex_grouped.wait_nil)
qed

text \<open>
  C35. \<^verbatim>\<open>Run\<close> ends whatever the endpoint answers, as long as each request ends (in an answer or an error: the
  client has a timeout): from every state the networked pipeline can reach, all its goroutines can return, no
  run is longer than a bound that depends only on the numbers of series, batches and writers, and at most
  one request is made per batch.
\<close>

theorem networked_run_ends:
  assumes "errgroup (p_group P)" "reach (init_net P n) (net_step P N wc) s"
  shows "length (ns_log s) \<le> length (all_batches P)
    \<and> (\<exists>as t. path (net_step P N wc) s as t \<and> all_returned (ns_pipe t))
    \<and> (\<forall>as t. path (net_step P N wc) (init_net P n) as t \<longrightarrow> length as \<le> 4 + 2 * length (p_series P) + 4 * length (all_batches P) + num_writers P)"
proof -
  have gp: "grouped_pipeline P" using assms(1) by (simp add: grouped_pipeline_def)
  have "length (ns_log s) \<le> length (all_batches P)"
    using requests.reach_inv [OF assms(2)] by (simp add: request_inv_def)
  moreover have "length as \<le> 4 + 2 * length (p_series P) + 4 * length (all_batches P) + num_writers P"
    if "path (net_step P N wc) (init_net P n) as t" for as t
    using grouped_pipeline.net_path_bound [OF gp that] by (simp add: work_left_init)
  ultimately show ?thesis using grouped_pipeline.net_can_finish [OF gp assms(2)] by simp
qed

theorem networked_run_ends_witness:
  "\<exists>as t. path (net_step ex_params ok_net (pipeline_writer ex_pipeline_cfg)) (init_net ex_params 0) as t \<and> all_returned (ns_pipe t)"
  using conjunct1 [OF conjunct2 [OF networked_run_ends [OF ex_grouped.errgroup_axioms reach_start [of "init_net ex_params 0" "net_step ex_params ok_net (pipeline_writer ex_pipeline_cfg)"]]]] .

end
