(* ===== verification/Cli.thy ===== *)
theory Cli
  imports Mimirconfig Filepath "HOL-Library.Multiset" "HOL-Library.List_Lexorder" "HOL-Library.Char_ord"
begin

text \<open>
  The command-line tools: \<^verbatim>\<open>cmd/revert-overrides/main.go\<close> (flags, the list of tenants, the revert),
  \<^verbatim>\<open>cmd/tenant-scan/main.go\<close> (the count of series per tenant over the blocks of a TSDB and their
  ranking). Blocks, their index and the file system are parameters.
\<close>

section \<open>Strings\<close>

text \<open>The white space of Unicode, encoded.\<close>

definition spaces :: "string list" where
  "spaces = map encode_rune
     ([9, 10, 11, 12, 13, 32, 133, 160, 5760] @ [8192..<8203] @ [8232, 8233, 8239, 8287, 12288])"

definition lead_space :: "string \<Rightarrow> string option" where
  "lead_space s = find (\<lambda>r. prefix r s) spaces"

lemma spaces_nonempty: "r \<in> set spaces \<Longrightarrow> r \<noteq> []"
  by (auto simp: spaces_def encode_rune_def replacement_def split: if_splits)

lemma lead_space_shorter: "lead_space s = Some r \<Longrightarrow> length s - length r < length s"
proof -
  assume "lead_space s = Some r"
  then have "r \<noteq> []" "length r \<le> length s"
    by (auto simp: lead_space_def find_Some_iff dest!: nth_mem spaces_nonempty prefix_length_le)
  then show ?thesis by (cases r; cases s) auto
qed

function trim_left :: "string \<Rightarrow> string" where
  "trim_left s = (case lead_space s of None \<Rightarrow> s | Some r \<Rightarrow> trim_left (drop (length r) s))"
  by auto
termination
  by (relation "measure length") (auto dest: lead_space_shorter)

declare trim_left.simps [simp del]

text \<open>On the right the last rune is looked at: a string ends in a space if its bytes do.\<close>

definition tail_space :: "string \<Rightarrow> string option" where
  "tail_space s = find (\<lambda>r. suffix r s) spaces"

lemma tail_space_shorter: "tail_space s = Some r \<Longrightarrow> length s - length r < length s"
proof -
  assume "tail_space s = Some r"
  then have "r \<noteq> []" "length r \<le> length s"
    by (auto simp: tail_space_def find_Some_iff dest!: nth_mem spaces_nonempty suffix_length_le)
  then show ?thesis by (cases r; cases s) auto
qed

function trim_right :: "string \<Rightarrow> string" where
  "trim_right s = (case tail_space s of None \<Rightarrow> s | Some r \<Rightarrow> trim_right (take (length s - length r) s))"
  by auto
termination
  by (relation "measure length") (auto dest: tail_space_shorter)

declare trim_right.simps [simp del]

definition trim_space :: "string \<Rightarrow> string" where
  "trim_space s = trim_right (trim_left s)"

section \<open>revert-overrides\<close>

definition split_tenants :: "string \<Rightarrow> string list" where
  "split_tenants raw = filter (\<lambda>t. t \<noteq> []) (map trim_space (split_on (CHR '','') [] raw))"

record cli_config =
  cl_tenants :: "string list"
  cl_namespace :: string
  cl_configmap :: string
  cl_data_key :: string
  cl_kubeconfig :: string

definition flag_names :: "string list" where
  "flag_names = [''tenants'', ''namespace'', ''configmap'', ''data-key'', ''kubeconfig'']"

text \<open>
  \<^verbatim>\<open>FlagSet.Parse\<close> for string flags: one or two dashes, the value after \<^verbatim>\<open>=\<close> or in the next argument; it
  stops at the first argument that is no flag.
\<close>

definition flag_err :: "string \<Rightarrow> goerr" where
  "flag_err s = errors_new s"

fun parse_args :: "string list \<Rightarrow> fields \<Rightarrow> goerr + fields" where
  "parse_args [] vals = Inr vals"
| "parse_args (s # rest) vals =
     (if length s < 2 \<or> hd s \<noteq> CHR ''-'' \<or> s = ''--'' then Inr vals
      else
        (let body = (if s ! 1 = CHR ''-'' then drop 2 s else drop 1 s);
             nm = takeWhile (\<lambda>c. c \<noteq> CHR ''='') body
         in if body = [] \<or> hd body = CHR ''-'' \<or> hd body = CHR ''='' then Inl (flag_err (''bad flag syntax: '' @ s))
            else if nm \<notin> set flag_names then
              (if nm = ''help'' \<or> nm = ''h'' then Inl (flag_err ''flag: help requested'')
               else Inl (flag_err (''flag provided but not defined: -'' @ nm)))
            else if CHR ''='' \<in> set body then parse_args rest ((nm, drop (length nm + 1) body) # vals)
            else (case rest of
                    [] \<Rightarrow> Inl (flag_err (''flag needs an argument: -'' @ nm))
                  | v # rest' \<Rightarrow> parse_args rest' ((nm, v) # vals))))"

definition flag_or :: "fields \<Rightarrow> string \<Rightarrow> string \<Rightarrow> string" where
  "flag_or vals k d = (case map_of vals k of None \<Rightarrow> d | Some v \<Rightarrow> v)"

definition parse_flags :: "(string \<Rightarrow> string) \<Rightarrow> string \<Rightarrow> string list \<Rightarrow> goerr + cli_config" where
  "parse_flags fmt_q kubeconfig_env args = (case parse_args args [] of
     Inl e \<Rightarrow> Inl e
   | Inr vals \<Rightarrow>
       (let raw = flag_or vals ''tenants'' []; tenants = split_tenants raw
        in if trim_space raw = [] then Inl (errors_new ''-tenants is required and must not be empty'')
           else if length tenants = 0 then Inl (errors_new (''-tenants produced an empty list after splitting '' @ fmt_q raw))
           else Inr \<lparr>cl_tenants = tenants, cl_namespace = flag_or vals ''namespace'' ''monitoring'',
                     cl_configmap = flag_or vals ''configmap'' ''mimir-runtime'',
                     cl_data_key = flag_or vals ''data-key'' ''runtime.yaml'',
                     cl_kubeconfig = flag_or vals ''kubeconfig'' kubeconfig_env\<rparr>))"

text \<open>
  The constructors of client-go: the in-cluster configuration, the one of a kubeconfig file and the
  client of a configuration. \<open>fmt_q\<close> is the quoting of the \<^verbatim>\<open>%q\<close> verb.
\<close>

record ('c, 'w) kube_boot =
  kb_in_cluster :: "goerr + 'c"
  kb_from_file :: "string \<Rightarrow> goerr + 'c"
  kb_new_client :: "'c \<Rightarrow> goerr + 'w k8s_client"

definition build_k8s_client :: "(string \<Rightarrow> string) \<Rightarrow> ('c, 'w) kube_boot \<Rightarrow> string \<Rightarrow> goerr + 'w k8s_client" where
  "build_k8s_client fmt_q kb pth =
     (case (case kb_in_cluster kb of
              Inr c \<Rightarrow> Inr c
            | Inl _ \<Rightarrow>
                (case kb_from_file kb pth of
                   Inr c \<Rightarrow> Inr c
                 | Inl e \<Rightarrow> Inl (wrapf (''could not build kubernetes client config (tried in-cluster and kubeconfig '' @ fmt_q pth @ ''): '') e))) of
        Inl e \<Rightarrow> Inl e
      | Inr c \<Rightarrow> (case kb_new_client kb c of Inl e \<Rightarrow> Inl (wrapf ''create kubernetes client: '' e) | Inr k \<Rightarrow> Inr k))"

definition tool_config :: "cli_config \<Rightarrow> mimir_config" where
  "tool_config cfg = mimir_new \<lparr>cfg_namespace = cl_namespace cfg, cfg_configmap_name = cl_configmap cfg,
     cfg_data_key = cl_data_key cfg, cfg_ooo_window = ''2880h''\<rparr>"

definition revert_run ::
  "yaml_lib \<Rightarrow> (string \<Rightarrow> string) \<Rightarrow> ('c, 'w) kube_boot \<Rightarrow> ctx \<Rightarrow> cli_config \<Rightarrow> 'w \<Rightarrow> (fault + unit) \<times> 'w" where
  "revert_run Y fmt_q kb cx cfg w = (case build_k8s_client fmt_q kb (cl_kubeconfig cfg) of
     Inl e \<Rightarrow> (Inl (Err e), w)
   | Inr k \<Rightarrow>
       (case revert_overrides Y k (tool_config cfg) cx (cl_tenants cfg) w of
          (Inl (Err e), w') \<Rightarrow> (Inl (Err (wrapf ''RevertOverrides: '' e)), w')
        | (Inl (Panic s), w') \<Rightarrow> (Inl (Panic s), w')
        | (Inr _, w') \<Rightarrow> (Inr (), w')))"

text \<open>\<^verbatim>\<open>main\<close>: the exit status; a panic ends a Go program with status 2.\<close>

definition revert_main ::
  "yaml_lib \<Rightarrow> (string \<Rightarrow> string) \<Rightarrow> ('c, 'w) kube_boot \<Rightarrow> ctx \<Rightarrow> string \<Rightarrow> string list \<Rightarrow> 'w \<Rightarrow> nat \<times> 'w" where
  "revert_main Y fmt_q kb cx kubeconfig_env args w = (case parse_flags fmt_q kubeconfig_env args of
     Inl _ \<Rightarrow> (1, w)
   | Inr cfg \<Rightarrow>
       (case revert_run Y fmt_q kb cx cfg w of
          (Inl (Err _), w') \<Rightarrow> (1, w')
        | (Inl (Panic _), w') \<Rightarrow> (2, w')
        | (Inr _, w') \<Rightarrow> (0, w')))"

section \<open>tenant-scan\<close>

text \<open>
  The directories that hold a \<^verbatim>\<open>meta.json\<close>, sorted; \<^verbatim>\<open>ReadDir\<close> gives the entries with whether each is a
  directory.
\<close>

definition list_block_dirs :: "(string \<Rightarrow> goerr + (string \<times> bool) list) \<Rightarrow> (string \<Rightarrow> bool) \<Rightarrow> string \<Rightarrow> goerr + string list" where
  "list_block_dirs read_dir exists root = (case read_dir root of
     Inl e \<Rightarrow> Inl (wrapf (''readdir '' @ root @ '': '') e)
   | Inr es \<Rightarrow> Inr (sort (map (\<lambda>(nm, _). join_path [root, nm])
       (filter (\<lambda>(nm, d). d \<and> exists (join_path [root, nm, ''meta.json''])) es))))"

text \<open>
  A block: opening it and its index may fail. The postings of a \<^verbatim>\<open>projectId\<close> value are an iterator: the
  series it yields and the error it ends with.
\<close>

record block =
  bk_open :: "goerr option"
  bk_index :: "goerr option"
  bk_values :: "goerr + string list"
  bk_postings :: "string \<Rightarrow> goerr + nat list \<times> goerr option"

type_synonym counts = "(string, nat) fmap"

definition count_of :: "counts \<Rightarrow> string \<Rightarrow> nat" where
  "count_of m v = (case fmlookup m v of None \<Rightarrow> 0 | Some n \<Rightarrow> n)"

fun count_values :: "(string \<Rightarrow> goerr + nat list \<times> goerr option) \<Rightarrow> string list \<Rightarrow> counts \<Rightarrow> nat \<Rightarrow> counts \<times> nat" where
  "count_values postings [] counts local = (counts, local)"
| "count_values postings (v # vs) counts local =
     (case postings v of
        Inl _ \<Rightarrow> count_values postings vs counts local
      | Inr (_, Some _) \<Rightarrow> count_values postings vs counts local
      | Inr (refs, None) \<Rightarrow>
          count_values postings vs (fmupd v (count_of counts v + length refs) counts) (local + 1))"

definition count_project_series :: "block \<Rightarrow> counts \<Rightarrow> (goerr + nat) \<times> counts" where
  "count_project_series b counts = (case bk_open b of
     Some e \<Rightarrow> (Inl (wrapf ''OpenBlock: '' e), counts)
   | None \<Rightarrow>
       (case bk_index b of
          Some e \<Rightarrow> (Inl (wrapf ''Index: '' e), counts)
        | None \<Rightarrow>
            (case bk_values b of
               Inl e \<Rightarrow> (Inl (wrapf ''LabelValues projectId: '' e), counts)
             | Inr vals \<Rightarrow> (let (counts', local) = count_values (bk_postings b) vals counts 0 in (Inr local, counts')))))"

fun scan_blocks :: "block list \<Rightarrow> counts \<Rightarrow> counts" where
  "scan_blocks [] counts = counts"
| "scan_blocks (b # bs) counts = scan_blocks bs (snd (count_project_series b counts))"

text \<open>
  What ranging over the map and \<^verbatim>\<open>sort.Slice\<close> by descending count may give. Go leaves the order of the range
  unspecified and the sort is not stable, so the two together are a relation and not a function: every
  entry of the map exactly once, in descending order of the counts, ties in any order. The report takes
  such an ordering as its parameter \<open>order\<close>; \<open>rank_counts\<close> below is one. \<open>top_of\<close> takes the first \<open>n\<close>.
\<close>

definition ranking :: "counts \<Rightarrow> (string \<times> nat) list \<Rightarrow> bool" where
  "ranking m all \<longleftrightarrow> distinct (map fst all) \<and> map_of all = fmlookup m \<and> sorted (rev (map snd all))"

definition top_of :: "nat \<Rightarrow> (string \<times> nat) list \<Rightarrow> (string \<times> nat) list" where
  "top_of topN all = take (if length all < topN then length all else topN) all"

record scan_output =
  so_tsdb_path :: string
  so_total_project_ids :: nat
  so_top_n :: nat
  so_top :: "(string \<times> nat) list"
  so_all_project_ids :: "(string \<times> nat) list"
  so_blocks_scanned :: nat

text \<open>The second argument, 8 if there is none; \<open>None\<close> is the usage error.\<close>

definition scan_top_n :: "string list \<Rightarrow> nat option" where
  "scan_top_n args =
     (if length args < 3 then Some 8
      else case atoi (args ! 2) of (n, err) \<Rightarrow> if err \<noteq> None \<or> n \<le> 0 then None else Some (nat n))"

text \<open>
  \<^verbatim>\<open>main\<close>: the exit status and what is written to standard output. \<open>order\<close> is how the runtime orders the
  map and its ties, \<open>encode_err\<close> the error of the encoder.
\<close>

definition scan_main ::
  "(string \<Rightarrow> goerr + (string \<times> bool) list) \<Rightarrow> (string \<Rightarrow> bool) \<Rightarrow> (string \<Rightarrow> block) \<Rightarrow> (counts \<Rightarrow> (string \<times> nat) list)
     \<Rightarrow> goerr option \<Rightarrow> string list \<Rightarrow> nat \<times> scan_output option" where
  "scan_main read_dir exists open_block order encode_err args =
     (if length args < 2 then (2, None)
      else case scan_top_n args of
        None \<Rightarrow> (2, None)
      | Some topN \<Rightarrow>
          (case list_block_dirs read_dir exists (args ! 1) of
             Inl _ \<Rightarrow> (1, None)
           | Inr dirs \<Rightarrow>
               (let all = order (scan_blocks (map open_block dirs) fmempty);
                    out = \<lparr>so_tsdb_path = args ! 1, so_total_project_ids = length all,
                           so_top_n = (if length all < topN then length all else topN), so_top = top_of topN all,
                           so_all_project_ids = all, so_blocks_scanned = length dirs\<rparr>
                in if encode_err = None then (0, Some out) else (1, Some out))))"

section \<open>Properties of revert-overrides\<close>

lemma set_trim_space: "set (trim_space s) \<subseteq> set s"
proof -
  have l: "set (trim_left t) \<subseteq> set t" for t
    by (induction t rule: trim_left.induct) (subst trim_left.simps, auto split: option.splits dest: in_set_dropD)
  have r: "set (trim_right t) \<subseteq> set t" for t
    by (induction t rule: trim_right.induct) (subst trim_right.simps, auto split: option.splits dest: in_set_takeD)
  show ?thesis using l r unfolding trim_space_def by blast
qed

text \<open>
  C38. The tenants of \<^verbatim>\<open>revert-overrides\<close>: a list of comma-free segments joined by commas is read back as
  those segments in order, trimmed and without the blank ones; whatever the input, no id that
  comes out is empty or contains a comma.
\<close>

theorem split_tenants_roundtrip:
  "(list_all (\<lambda>seg. CHR '','' \<notin> set seg) segs \<and> segs \<noteq> []
      \<longrightarrow> split_tenants (join_with (CHR '','') segs) = filter (\<lambda>t. t \<noteq> []) (map trim_space segs))
   \<and> list_all (\<lambda>t. t \<noteq> [] \<and> CHR '','' \<notin> set t) (split_tenants raw)"
proof (intro conjI impI)
  assume "list_all (\<lambda>seg. CHR '','' \<notin> set seg) segs \<and> segs \<noteq> []"
  then have "split_on (CHR '','') [] (join_with (CHR '','') segs) = segs" by (intro split_join) (auto simp: list_all_iff)
  then show "split_tenants (join_with (CHR '','') segs) = filter (\<lambda>t. t \<noteq> []) (map trim_space segs)" by (simp add: split_tenants_def)
next
  show "list_all (\<lambda>t. t \<noteq> [] \<and> CHR '','' \<notin> set t) (split_tenants raw)"
    using split_on_pieces [of _ "CHR '',''" "[]" raw] set_trim_space
    by (fastforce simp: split_tenants_def list_all_iff)
qed

lemma spaces_eval:
  "spaces =
    [[CHR 0x09],
     [CHR 0x0A],
     [CHR 0x0B],
     [CHR 0x0C],
     [CHR 0x0D],
     [CHR 0x20],
     [CHR 0xC2, CHR 0x85],
     [CHR 0xC2, CHR 0xA0],
     [CHR 0xE1, CHR 0x9A, CHR 0x80],
     [CHR 0xE2, CHR 0x80, CHR 0x80],
     [CHR 0xE2, CHR 0x80, CHR 0x81],
     [CHR 0xE2, CHR 0x80, CHR 0x82],
     [CHR 0xE2, CHR 0x80, CHR 0x83],
     [CHR 0xE2, CHR 0x80, CHR 0x84],
     [CHR 0xE2, CHR 0x80, CHR 0x85],
     [CHR 0xE2, CHR 0x80, CHR 0x86],
     [CHR 0xE2, CHR 0x80, CHR 0x87],
     [CHR 0xE2, CHR 0x80, CHR 0x88],
     [CHR 0xE2, CHR 0x80, CHR 0x89],
     [CHR 0xE2, CHR 0x80, CHR 0x8A],
     [CHR 0xE2, CHR 0x80, CHR 0xA8],
     [CHR 0xE2, CHR 0x80, CHR 0xA9],
     [CHR 0xE2, CHR 0x80, CHR 0xAF],
     [CHR 0xE2, CHR 0x81, CHR 0x9F],
     [CHR 0xE3, CHR 0x80, CHR 0x80]]"
  by (simp add: spaces_def encode_rune_def char_of_def bit_0)

lemma ex_spaces:
  "lead_space '' acme'' = Some '' ''" "lead_space ''acme'' = None" "lead_space ''widgets'' = None" "lead_space [] = None"
  "tail_space ''acme'' = None" "tail_space ''widgets'' = None" "tail_space [] = None"
  by (simp_all add: lead_space_def tail_space_def spaces_eval suffix_to_prefix)

lemma trim_plain: "lead_space s = None \<Longrightarrow> trim_left s = s" "tail_space s = None \<Longrightarrow> trim_right s = s"
  by (simp_all add: trim_left.simps [of s] trim_right.simps [of s])

theorem split_tenants_roundtrip_witness:
  "split_tenants '' acme,,widgets'' = [''acme'', ''widgets'']"
proof -
  have "join_with (CHR '','') ['' acme'', [], ''widgets''] = '' acme,,widgets''" by simp
  moreover have "map trim_space ['' acme'', [], ''widgets''] = [''acme'', [], ''widgets'']"
    by (simp add: trim_space_def trim_left.simps [of "'' acme''"] trim_plain ex_spaces)
  ultimately show ?thesis
    using conjunct1 [OF split_tenants_roundtrip [of "['' acme'', [], ''widgets'']" "[]"]] by simp
qed

lemma parse_flags_tenants: "parse_flags fmt_q env args = Inr cfg \<Longrightarrow> cl_tenants cfg \<noteq> []"
  by (auto simp: parse_flags_def Let_def split: sum.splits if_splits)

text \<open>
  C37. When \<^verbatim>\<open>revert-overrides\<close> exits with status 0, at least one tenant was given, and in the ConfigMap the
  flags name none of the given tenants has a managed key any more; every other data key and every
  other ConfigMap is as it was.
\<close>

theorem revert_tool_exit_0:
  assumes "\<And>cfg k. parse_flags fmt_q env args = Inr cfg \<Longrightarrow> build_k8s_client fmt_q kb (cl_kubeconfig cfg) = Inr k
      \<Longrightarrow> mimir_store Y k cms (tool_config cfg)"
    and "revert_main Y fmt_q kb cx env args w = (0, w')"
  shows "\<exists>cfg data data' doc. parse_flags fmt_q env args = Inr cfg \<and> cl_tenants cfg \<noteq> []
    \<and> cms w (cm_key (tool_config cfg)) = Some data \<and> cms w' (cm_key (tool_config cfg)) = Some data'
    \<and> parse_runtime_yaml Y data' (cfg_data_key (tool_config cfg)) = Inr (Some doc)
    \<and> (\<forall>t k. t \<in> set (cl_tenants cfg) \<and> k \<in> {key_ooo, key_ing_rate, key_ing_burst} \<longrightarrow> setting doc t k = None)
    \<and> (\<forall>x. x \<noteq> cfg_data_key (tool_config cfg) \<longrightarrow> data' x = data x)
    \<and> (\<forall>n. n \<noteq> cm_key (tool_config cfg) \<longrightarrow> cms w' n = cms w n)"
proof -
  from assms(2) obtain cfg k where p: "parse_flags fmt_q env args = Inr cfg" "build_k8s_client fmt_q kb (cl_kubeconfig cfg) = Inr k"
    and r: "revert_overrides Y k (tool_config cfg) cx (cl_tenants cfg) w = (Inr (), w')"
    by (auto simp: revert_main_def revert_run_def split: sum.splits prod.splits fault.splits)
  have managed: "managed [] key_ooo \<noteq> None" "managed [] key_ing_rate \<noteq> None" "managed [] key_ing_burst \<noteq> None"
    by (simp_all add: managed_def)
  have none: "setting (revert_doc (cl_tenants cfg) doc) t x = None"
    if "t \<in> set (cl_tenants cfg)" "x \<in> {key_ooo, key_ing_rate, key_ing_burst}" for doc t x
    using that managed by (auto simp: setting_revert [of _ _ _ _ "[]"] split: option.splits)
  from revert_overrides_correct [OF assms(1) [OF p] r] obtain data data' d where
    d: "cms w (cm_key (tool_config cfg)) = Some data" "cms w' (cm_key (tool_config cfg)) = Some data'"
      "parse_runtime_yaml Y data' (cfg_data_key (tool_config cfg))
        = Inr (Some (revert_doc (cl_tenants cfg) (case d of None \<Rightarrow> fmempty | Some doc \<Rightarrow> doc)))"
      "\<forall>x. x \<noteq> cfg_data_key (tool_config cfg) \<longrightarrow> data' x = data x" "\<forall>n. n \<noteq> cm_key (tool_config cfg) \<longrightarrow> cms w' n = cms w n"
    by auto
  show ?thesis
    by (intro exI conjI) (rule p(1) parse_flags_tenants [OF p(1)] d | (intro allI impI, elim conjE, rule none, assumption+))+
qed

definition ex_kube :: "(unit, configmaps) kube_boot" where
  "ex_kube = \<lparr>kb_in_cluster = Inl (errors_new ''not in a cluster''), kb_from_file = (\<lambda>_. Inr ()), kb_new_client = (\<lambda>_. Inr mem_k8s)\<rparr>"

theorem revert_tool_exit_0_witness:
  "\<exists>w'. revert_main ex_yaml (\<lambda>s. s) ex_kube Live [] [''-tenants'', ''acme''] ex_cluster = (0, w')
     \<and> (\<exists>data. w' (''monitoring'', ''mimir-runtime'') = Some data \<and> data ''other.txt'' = Some ''x'')"
proof -
  let ?cfg = "\<lparr>cl_tenants = [''acme''], cl_namespace = ''monitoring'', cl_configmap = ''mimir-runtime'', cl_data_key = ''runtime.yaml'', cl_kubeconfig = []\<rparr>"
  have trim: "trim_space ''acme'' = ''acme''" by (simp add: trim_space_def trim_plain ex_spaces)
  then have flags: "parse_flags (\<lambda>s. s) [] [''-tenants'', ''acme''] = Inr ?cfg"
    by (simp add: parse_flags_def flag_names_def flag_or_def split_tenants_def Let_def)
  have client: "build_k8s_client (\<lambda>s. s) ex_kube [] = Inr mem_k8s" by (simp add: build_k8s_client_def ex_kube_def)
  have cfg: "tool_config ?cfg = ex_mimir" by (simp add: tool_config_def ex_mimir_def mimir_new_def or_default_def)
  have "revert_doc [''acme''] fmempty = fmempty"
    by (simp add: revert_doc_def extract_overrides_def revert_tenant_def Let_def)
  then have "patch_configmap ex_yaml mem_k8s ex_mimir Live (revert_doc [''acme''] fmempty) ex_cluster
      = (Inr (), merge_patch (cm_key ex_mimir) ''runtime.yaml'' ''{}'' ex_cluster)"
    by (intro ex_patch) (simp_all add: ex_yaml_def ex_docs_def ex_cluster_def cm_key_def)
  then obtain w' where run: "revert_main ex_yaml (\<lambda>s. s) ex_kube Live [] [''-tenants'', ''acme''] ex_cluster = (0, w')"
    by (simp add: revert_main_def revert_run_def flags client cfg revert_overrides_def ex_get_doc)
  have store: "mimir_store ex_yaml k (\<lambda>w. w) (tool_config c)"
    if "parse_flags (\<lambda>s. s) [] [''-tenants'', ''acme''] = Inr c" "build_k8s_client (\<lambda>s. s) ex_kube (cl_kubeconfig c) = Inr k" for c k
  proof -
    from that(1) flags have c: "c = ?cfg" by simp
    with that(2) client have "k = mem_k8s" by simp
    then show ?thesis unfolding c cfg by (simp add: ex_store.mimir_store_axioms)
  qed
  from revert_tool_exit_0 [OF store run] obtain data data' where
    d: "ex_cluster (cm_key ex_mimir) = Some data" "w' (cm_key ex_mimir) = Some data'" "\<forall>x. x \<noteq> ''runtime.yaml'' \<longrightarrow> data' x = data x"
    unfolding flags sum.inject by (auto simp: cfg)
  then have "w' (''monitoring'', ''mimir-runtime'') = Some data'" "data' ''other.txt'' = Some ''x''"
    by (auto simp: cm_key_def ex_cluster_def)
  with run show ?thesis by (intro exI conjI)
qed

section \<open>Properties of tenant-scan\<close>

text \<open>
  What a block contributes to a tenant: \<open>None\<close> when the block or the postings of the tenant in it could
  not be read, or the tenant is not in its index.
\<close>

definition block_series :: "string \<Rightarrow> block \<Rightarrow> nat option" where
  "block_series v b = (case (bk_open b, bk_index b, bk_values b) of
     (None, None, Inr vals) \<Rightarrow>
       (if v \<in> set vals then (case bk_postings b v of Inr (refs, None) \<Rightarrow> Some (length refs) | _ \<Rightarrow> None) else None)
   | _ \<Rightarrow> None)"

definition add_series :: "nat option \<Rightarrow> nat option \<Rightarrow> nat option" where
  "add_series x y = (case x of None \<Rightarrow> y | Some n \<Rightarrow> (case y of None \<Rightarrow> Some n | Some k \<Rightarrow> Some (n + k)))"

text \<open>An index lists each value of a label once.\<close>

definition block_ok :: "block \<Rightarrow> bool" where
  "block_ok b \<longleftrightarrow> (case bk_values b of Inr vs \<Rightarrow> distinct vs | Inl _ \<Rightarrow> True)"

lemma add_series_simps [simp]: "add_series None y = y" "add_series x None = x"
  by (simp_all add: add_series_def split: option.splits)

lemma add_series_assoc: "add_series (add_series x y) z = add_series x (add_series y z)"
  by (simp add: add_series_def split: option.splits)

lemma count_values_lookup:
  "distinct vs \<Longrightarrow> fmlookup (fst (count_values ps vs m k)) v =
     add_series (fmlookup m v) (if v \<in> set vs then (case ps v of Inr (refs, None) \<Rightarrow> Some (length refs) | _ \<Rightarrow> None) else None)"
  by (induction vs arbitrary: m k) (auto simp: count_of_def add_series_def split: sum.splits option.splits)

lemma count_project_series_lookup:
  assumes "block_ok b"
  shows "fmlookup (snd (count_project_series b m)) v = add_series (fmlookup m v) (block_series v b)"
proof -
  consider e where "bk_open b = Some e" | e where "bk_open b = None" "bk_index b = Some e"
    | e where "bk_open b = None" "bk_index b = None" "bk_values b = Inl e"
    | vs where "bk_open b = None" "bk_index b = None" "bk_values b = Inr vs"
    by (cases "bk_open b"; cases "bk_index b"; cases "bk_values b") auto
  then show ?thesis
  proof cases
    case 4
    with assms have "distinct vs" by (simp add: block_ok_def)
    from count_values_lookup [OF this, of "bk_postings b" m 0 v] 4 show ?thesis
      by (simp add: count_project_series_def block_series_def case_prod_beta Let_def)
  qed (simp_all add: count_project_series_def block_series_def)
qed

lemma scan_blocks_lookup:
  "list_all block_ok bs \<Longrightarrow> fmlookup (scan_blocks bs m) v = foldl add_series (fmlookup m v) (map (block_series v) bs)"
  by (induction bs arbitrary: m) (simp_all add: count_project_series_lookup)

lemma foldl_add_series:
  "foldl add_series x ys = add_series x (if list_all (\<lambda>y. y = None) ys then None else Some (sum_list (map (\<lambda>y. case y of None \<Rightarrow> 0 | Some n \<Rightarrow> n) ys)))"
  by (induction ys arbitrary: x) (auto simp: add_series_def list_all_iff split: option.splits)

text \<open>The total of a tenant over the blocks.\<close>

definition series_total :: "block list \<Rightarrow> string \<Rightarrow> nat" where
  "series_total bs v = sum_list (map (\<lambda>b. case block_series v b of None \<Rightarrow> 0 | Some n \<Rightarrow> n) bs)"

lemma scan_blocks_total:
  assumes "list_all block_ok bs"
  shows "fmlookup (scan_blocks bs fmempty) v = (if \<exists>b \<in> set bs. block_series v b \<noteq> None then Some (series_total bs v) else None)"
  using scan_blocks_lookup [OF assms, of fmempty v]
  by (auto simp: foldl_add_series list_all_iff series_total_def comp_def)

lemma ranking_top:
  assumes "ranking m all" "x \<in> set (top_of n all)" "y \<in> set (drop n all)"
  shows "snd y \<le> snd x"
proof -
  have "sorted_wrt (\<lambda>x y. snd y \<le> snd x) (take n all @ drop n all)"
    using assms(1) by (simp add: ranking_def sorted_wrt_rev sorted_wrt_map)
  moreover have "x \<in> set (take n all)" using assms(2) by (auto simp: top_of_def split: if_splits)
  ultimately show ?thesis using assms(3) by (auto simp only: sorted_wrt_append)
qed

text \<open>
  C39. When \<^verbatim>\<open>tenant-scan\<close> exits with status 0, its report is the truth about the blocks it could read,
  however the runtime orders ties: it lists exactly the tenants some block has, each once and with
  the sum of its series over the blocks; the top list is the requested number of them (or all), and
  no tenant outside it has more series than one inside.
\<close>

theorem scan_report_is_accurate:
  assumes "\<And>m. ranking m (order m)" "\<And>d. block_ok (open_block d)"
    and "scan_main read_dir exists open_block order encode_err args = (0, Some out)"
  shows "\<exists>dirs bs topN. list_block_dirs read_dir exists (args ! 1) = Inr dirs \<and> scan_top_n args = Some topN
    \<and> bs = map open_block dirs \<and> so_blocks_scanned out = length dirs
    \<and> distinct (map fst (so_all_project_ids out)) \<and> so_total_project_ids out = length (so_all_project_ids out)
    \<and> set (so_all_project_ids out) = {(v, series_total bs v) | v. \<exists>b \<in> set bs. block_series v b \<noteq> None}
    \<and> so_top_n out = min topN (so_total_project_ids out) \<and> so_top out = take (so_top_n out) (so_all_project_ids out)
    \<and> (\<forall>x \<in> set (so_top out). \<forall>y \<in> set (so_all_project_ids out) - set (so_top out). snd y \<le> snd x)"
proof -
  from assms(3) obtain dirs topN where d: "list_block_dirs read_dir exists (args ! 1) = Inr dirs" "scan_top_n args = Some topN"
    and out: "so_all_project_ids out = order (scan_blocks (map open_block dirs) fmempty)" "so_blocks_scanned out = length dirs"
      "so_total_project_ids out = length (so_all_project_ids out)" "so_top out = top_of topN (so_all_project_ids out)"
      "so_top_n out = (if length (so_all_project_ids out) < topN then length (so_all_project_ids out) else topN)"
    by (auto simp: scan_main_def Let_def split: if_splits option.splits sum.splits)
  let ?all = "so_all_project_ids out" and ?bs = "map open_block dirs"
  have r: "ranking (scan_blocks ?bs fmempty) ?all" unfolding out(1) by (rule assms(1))
  have ok: "list_all block_ok ?bs" using assms(2) by (simp add: list_all_iff)
  have dist: "distinct (map fst ?all)" using r by (simp add: ranking_def)
  have "(v, n) \<in> set ?all \<longleftrightarrow> fmlookup (scan_blocks ?bs fmempty) v = Some n" for v n
    using r by (simp add: ranking_def flip: map_of_eq_Some_iff)
  then have "(v, n) \<in> set ?all \<longleftrightarrow> (\<exists>b \<in> set ?bs. block_series v b \<noteq> None) \<and> n = series_total ?bs v" for v n
    unfolding scan_blocks_total [OF ok] by auto
  then have all: "set ?all = {(v, series_total ?bs v) | v. \<exists>b \<in> set ?bs. block_series v b \<noteq> None}"
    by (intro set_eqI, unfold mem_Collect_eq) (metis surj_pair)
  have take: "top_of topN ?all = take topN ?all" by (simp add: top_of_def)
  have rest: "y \<in> set (drop topN ?all)" if "y \<in> set ?all - set (so_top out)" for y
    using that set_append [of "take topN ?all" "drop topN ?all"] by (auto simp: out(4) take)
  have top: "snd y \<le> snd x" if "x \<in> set (so_top out)" "y \<in> set ?all - set (so_top out)" for x y
    using ranking_top [OF r _ rest [OF that(2)]] that(1) by (simp add: out(4))
  show ?thesis
    using d dist all top out(2,3,4,5) take by (intro exI [of _ dirs] exI [of _ ?bs] exI [of _ topN] conjI) auto
qed

text \<open>A runtime: ties in descending order of the id.\<close>

definition rank_counts :: "counts \<Rightarrow> (string \<times> nat) list" where
  "rank_counts m = rev (sort_key snd (map (\<lambda>v. (v, count_of m v)) (sorted_list_of_fset (fmdom m))))"

lemma ranking_rank_counts: "ranking m (rank_counts m)"
proof -
  let ?vs = "sorted_list_of_fset (fmdom m)"
  let ?xs = "map (\<lambda>v. (v, count_of m v)) ?vs"
  have "mset (map fst (rank_counts m)) = mset ?vs" by (simp add: rank_counts_def multiset.map_comp comp_def)
  moreover have "distinct ?vs" by (simp add: sorted_list_of_fset.rep_eq)
  ultimately have dist: "distinct (map fst (rank_counts m))" by (metis mset_eq_imp_distinct_iff)
  have "(v, n) \<in> set (rank_counts m) \<longleftrightarrow> fmlookup m v = Some n" for v n
    by (auto simp: rank_counts_def count_of_def fmlookup_dom_iff split: option.splits)
  then have "map_of (rank_counts m) v = Some n \<longleftrightarrow> fmlookup m v = Some n" for v n
    using map_of_eq_Some_iff [OF dist] by simp
  then have "map_of (rank_counts m) v = fmlookup m v" for v
    by (metis option.exhaust)
  then have "map_of (rank_counts m) = fmlookup m" by (rule ext)
  with dist show ?thesis by (simp add: ranking_def rank_counts_def rev_map [symmetric])
qed

definition ex_block :: block where
  "ex_block = \<lparr>bk_open = None, bk_index = None, bk_values = Inr [''a'', ''b''],
     bk_postings = (\<lambda>v. if v = ''a'' then Inr ([1, 2, 3], None) else Inl (errors_new ''corrupt''))\<rparr>"

theorem scan_report_is_accurate_witness:
  "\<exists>out. scan_main (\<lambda>_. Inr [(''b2'', True), (''b1'', True), (''wal'', False)]) (\<lambda>_. True) (\<lambda>_. ex_block) rank_counts None [''tenant-scan'', ''/data'']
     = (0, Some out) \<and> so_all_project_ids out = [(''a'', 6)] \<and> so_top_n out = 1"
proof -
  let ?main = "scan_main (\<lambda>_. Inr [(''b2'', True), (''b1'', True), (''wal'', False)]) (\<lambda>_. True) (\<lambda>_. ex_block) rank_counts None [''tenant-scan'', ''/data'']"
  obtain out where out: "?main = (0, Some out)"
    by (simp add: scan_main_def scan_top_n_def list_block_dirs_def Let_def)
  have ok: "block_ok ex_block" by (simp add: block_ok_def ex_block_def)
  from scan_report_is_accurate [OF ranking_rank_counts ok out] obtain dirs bs where
    l: "list_block_dirs (\<lambda>_. Inr [(''b2'', True), (''b1'', True), (''wal'', False)]) (\<lambda>_. True) ''/data'' = Inr dirs"
      "bs = map (\<lambda>_. ex_block) dirs" and t: "so_top_n out = min 8 (so_total_project_ids out)"
      "so_total_project_ids out = length (so_all_project_ids out)" "distinct (map fst (so_all_project_ids out))"
    and all: "set (so_all_project_ids out) = {(v, series_total bs v) | v. \<exists>b \<in> set bs. block_series v b \<noteq> None}"
    by (auto simp: scan_top_n_def)
  from l have "length dirs = 2" by (auto simp: list_block_dirs_def)
  with l(2) have bs: "bs = [ex_block, ex_block]" by (simp add: map_replicate_const numeral_2_eq_2)
  have "block_series v ex_block = (if v = ''a'' then Some 3 else None)" for v by (auto simp: block_series_def ex_block_def)
  with bs have "set (so_all_project_ids out) = {(''a'', 6)}" unfolding all by (auto simp: series_total_def)
  with t(3) have "so_all_project_ids out = [(''a'', 6)]" by (intro distinct_set_singleton) (simp_all add: distinct_map)
  with out t(1,2) show ?thesis by simp
qed

end
