(* ===== verification/Migrator.thy ===== *)
theory Migrator
  imports Pipeline_Correct
begin

text \<open>
  The one-shot tool \<^verbatim>\<open>cmd/migrator/main.go\<close> on the values of its flags: what it hands to the pipeline,
  its exit status and summary, and whether the TSDB was closed (a deferred call, which \<^verbatim>\<open>os.Exit\<close>
  skips).
\<close>

record migrator_flags =
  mf_tsdb_path :: string
  mf_cortex_url :: string
  mf_tenant :: string
  mf_max_batch_bytes :: int
  mf_writers :: int
  mf_dry_run :: bool
  mf_min_time :: int
  mf_max_time :: int

definition default_flags :: migrator_flags where
  "default_flags = \<lparr>mf_tsdb_path = [], mf_cortex_url = [], mf_tenant = [], mf_max_batch_bytes = 3 * 1024 * 1024,
     mf_writers = 4, mf_dry_run = False, mf_min_time = 0, mf_max_time = 0\<rparr>"

definition migrator_config :: "migrator_flags \<Rightarrow> 'p \<Rightarrow> 'p pipeline_config" where
  "migrator_config f provider =
     \<lparr>pc_provider = Some provider, pc_tenant_id = mf_tenant f, pc_cortex_url = mf_cortex_url f,
      pc_max_batch_bytes = mf_max_batch_bytes f, pc_writer_concurrency = mf_writers f, pc_dry_run = mf_dry_run f,
      pc_min_time = mf_min_time f, pc_max_time = mf_max_time f\<rparr>"

record migrator_result =
  mr_exit :: nat
  mr_summary :: "pipeline_stats option"
  mr_closed :: bool

definition migrator_main ::
  "(string \<Rightarrow> goerr + 'p) \<Rightarrow> ('p pipeline_config \<Rightarrow> run_outcome) \<Rightarrow> migrator_flags \<Rightarrow> migrator_result" where
  "migrator_main open_db run f =
     (if mf_tsdb_path f = [] \<or> mf_cortex_url f = [] then \<lparr>mr_exit = 1, mr_summary = None, mr_closed = False\<rparr>
      else case open_db (mf_tsdb_path f) of
        Inl _ \<Rightarrow> \<lparr>mr_exit = 1, mr_summary = None, mr_closed = False\<rparr>
      | Inr provider \<Rightarrow>
          (let ro = run (migrator_config f provider)
           in case ro_err ro of
                Some _ \<Rightarrow> \<lparr>mr_exit = 1, mr_summary = None, mr_closed = False\<rparr>
              | None \<Rightarrow> \<lparr>mr_exit = 0, mr_summary = Some (ro_stats ro), mr_closed = True\<rparr>))"

text \<open>
  C40. The exit status of the tool is 0 or 1. It is 0 only if the TSDB was opened, the read succeeded and,
  unless \<^verbatim>\<open>--dry-run\<close> is given, every sample that was read was sent exactly once; the summary it then prints is
  the true count. With \<^verbatim>\<open>--dry-run\<close> nothing was sent. When it is 1 no summary is printed, and a path or the URL
  was missing, the TSDB could not be opened or the run failed.
\<close>

theorem migrator_exit_0_is_complete:
  assumes "errgroup G"
    and "\<And>p. open_db (mf_tsdb_path f) = Inr p \<Longrightarrow> run_pipeline G sz read (migrator_config f p) (run (migrator_config f p))"
    and "r = migrator_main open_db run f"
  shows "mr_exit r = 0 \<and> (\<exists>p sds ro. open_db (mf_tsdb_path f) = Inr p \<and> ro = run (migrator_config f p)
      \<and> read (pipeline_reader_config (migrator_config f p)) p = (sds, None)
      \<and> (if mf_dry_run f then ro_delivered ro = []
         else mset (concat (map batch_stream (ro_delivered ro))) = mset (concat (map series_stream sds)))
      \<and> mr_summary r = Some (ro_stats ro) \<and> samples_sent (ro_stats ro) = sample_total sds \<and> series_read (ro_stats ro) = length sds)
    \<or> mr_exit r = 1 \<and> mr_summary r = None
      \<and> (mf_tsdb_path f = [] \<or> mf_cortex_url f = [] \<or> (\<exists>e. open_db (mf_tsdb_path f) = Inl e)
         \<or> (\<exists>p. open_db (mf_tsdb_path f) = Inr p \<and> ro_err (run (migrator_config f p)) \<noteq> None))"
proof (cases "mr_exit r = 0")
  case True
  with assms(3) obtain p where p: "open_db (mf_tsdb_path f) = Inr p" "ro_err (run (migrator_config f p)) = None"
    "mr_summary r = Some (ro_stats (run (migrator_config f p)))"
    by (auto simp: migrator_main_def Let_def split: if_splits sum.splits option.splits)
  have prov: "pc_provider (migrator_config f p) = Some p" "pc_dry_run (migrator_config f p) = mf_dry_run f"
    by (simp_all add: migrator_config_def)
  obtain sds rerr where rd: "read (pipeline_reader_config (migrator_config f p)) p = (sds, rerr)" by fastforce
  from run_success [OF assms(1) assms(2) [OF p(1)] p(2) prov(1) rd] p rd prov(2) True show ?thesis by auto
next
  case False
  with assms(3) show ?thesis by (auto simp: migrator_main_def Let_def split: if_splits sum.splits option.splits)
qed

theorem migrator_exit_0_is_complete_witness:
  "\<exists>ro st. migrator_main (\<lambda>_. Inr ()) (\<lambda>_. ro) \<lparr>mf_tsdb_path = ''/d'', mf_cortex_url = ''http://c/push'', mf_tenant = ''t1'',
       mf_max_batch_bytes = 100, mf_writers = 1, mf_dry_run = False, mf_min_time = 0, mf_max_time = 0\<rparr>
     = \<lparr>mr_exit = 0, mr_summary = Some st, mr_closed = True\<rparr> \<and> samples_sent st = 2"
proof -
  let ?f = "\<lparr>mf_tsdb_path = ''/d'', mf_cortex_url = ''http://c/push'', mf_tenant = ''t1'',
       mf_max_batch_bytes = 100, mf_writers = 1, mf_dry_run = False, mf_min_time = 0, mf_max_time = 0\<rparr>"
  have cfg: "migrator_config ?f () = ex_pipeline_cfg" by (simp add: migrator_config_def ex_pipeline_cfg_def)
  obtain ro where ro: "run_pipeline first_error_group (\<lambda>t. 10 * length (ts_samples t)) (\<lambda>_ _. ([ex_series], None)) ex_pipeline_cfg ro" "ro_err ro = None"
    using ex_outcome by blast
  then have main: "migrator_main (\<lambda>_. Inr ()) (\<lambda>_. ro) ?f = \<lparr>mr_exit = 0, mr_summary = Some (ro_stats ro), mr_closed = True\<rparr>"
    by (simp add: migrator_main_def cfg)
  from migrator_exit_0_is_complete [OF feg.errgroup_axioms, of "\<lambda>_. Inr ()" ?f "\<lambda>t. 10 * length (ts_samples t)" "\<lambda>_ _. ([ex_series], None)" "\<lambda>_. ro", OF _ refl]
    ro(1) main have "samples_sent (ro_stats ro) = 2" by (simp add: cfg ex_series_def)
  with main show ?thesis by blast
qed

end
