(* ===== verification/Spec2Isabelle.thy ===== *)
theory Spec2Isabelle
  imports Service Networked Cli Migrator
begin

text \<open>
  A verification library for the tenant migrator: the Go service under \<^verbatim>\<open>src/services/migrator\<close> that
  reads one tenant's series out of a Prometheus TSDB and writes them, in size-bounded remote-write
  requests, to an endpoint in front of Mimir.

  \<^bold>\<open>The program.\<close> \<^verbatim>\<open>POST /migrate\<close> (\<^verbatim>\<open>internal/api\<close>) relaxes the tenants' limits in the \<^verbatim>\<open>mimir-runtime\<close>
  ConfigMap (\<^verbatim>\<open>internal/mimirconfig\<close>), enqueues one asynq task per tenant and marks it pending in Redis
  (\<^verbatim>\<open>internal/queue\<close>). A worker takes the task, runs the pipeline (\<^verbatim>\<open>internal/migration\<close>: a reader on the TSDB,
  \<^verbatim>\<open>internal/tsdb\<close>, a batcher and several writers, \<^verbatim>\<open>internal/remotewrite\<close>, all concurrent) and records the
  outcome in Redis and in a history log. \<^verbatim>\<open>cmd/server\<close> wires this up, after a probe of the endpoint
  (\<^verbatim>\<open>internal/cortexcheck\<close>); \<^verbatim>\<open>cmd/migrator\<close>, \<^verbatim>\<open>cmd/revert-overrides\<close> and \<^verbatim>\<open>cmd/tenant-scan\<close> are one-shot tools.

  \<^bold>\<open>Theories, in the order of the imports.\<close>
  \<^item> \<open>Prelude\<close>: Go errors and their wrapping, calls into services, contexts, Go maps, shared list facts,
    and the collections \<open>wire_eval\<close> and \<open>config_defs\<close>. \<open>Strconv\<close>: \<^verbatim>\<open>strconv.Itoa\<close> and \<^verbatim>\<open>Atoi\<close> at 64 bits.
    \<open>Filepath\<close>: \<^verbatim>\<open>strings.Split\<close>, \<^verbatim>\<open>filepath.Clean\<close>, \<^verbatim>\<open>Join\<close>, \<^verbatim>\<open>Dir\<close>. \<open>Machine\<close>: transition systems with the locales
    \<open>invariant_machine\<close>, \<open>terminating_machine\<close> and \<open>simulation\<close>.
  \<^item> \<open>Tsdb\<close> (\<^verbatim>\<open>internal/tsdb/reader.go\<close>, \<^verbatim>\<open>provider.go\<close>, \<^verbatim>\<open>fakes.go\<close>): \<^verbatim>\<open>Reader.Read\<close> over the iterator interfaces of
    Prometheus. The locale \<open>series_iteration\<close> is the contract of those iterators; the exported fakes and an
    in-memory TSDB are interpretations. \<^verbatim>\<open>Read\<close> refines a reader of a plain list of series; of a series that
    mixes floats and histograms it takes the floats before the first histogram (\<open>float_prefix\<close>), so the
    properties about delivery speak of those, and of all samples only when there are no histograms.
  \<^item> \<open>Batcher\<close> (\<^verbatim>\<open>pipeline.go\<close>, the batcher goroutine): greedy filling and the splitting of oversize series, as a
    sequential function; it keeps the stream of samples and the byte budget.
  \<^item> \<open>Pipeline\<close>, \<open>Pipeline_Invariant\<close>, \<open>Pipeline_Correct\<close> (\<^verbatim>\<open>pipeline.go\<close>, \<^verbatim>\<open>Run\<close>): goroutines, channels and
    statistics as a labelled transition system, its invariant, and what holds of every schedule. The state
    tells the batches whose \<^verbatim>\<open>Send\<close> returned nil (\<open>delivered\<close>) from those added to the statistics (\<open>counted\<close>), which
    happens later and also in a dry run. A run that succeeds delivered everything exactly once, or nothing if
    it is a dry run; any run delivers at most once; there is no deadlock, every run ends, the error returned
    is a root cause, progress is cumulative. The package \<^verbatim>\<open>errgroup\<close> is a parameter with the locale \<open>errgroup\<close> as
    its documented contract.
  \<^item> \<open>Remotewrite\<close> (\<^verbatim>\<open>writer.go\<close>, \<^verbatim>\<open>probe.go\<close>): \<^verbatim>\<open>Send\<close> and \<^verbatim>\<open>Probe\<close> on every branch. \<open>Networked\<close>: the pipeline with
    \<^verbatim>\<open>Send\<close> on a network that records every request it is handed (\<open>recording\<close>), simulated by the pipeline; what
    was delivered is what the endpoint acknowledged, and no batch is requested twice.
  \<^item> \<open>Json\<close>, \<open>Json_Roundtrip\<close>: \<^verbatim>\<open>encoding/json\<close> as the code uses it (escaping, UTF-8 repair, nesting limit, the
    parser) and that parsing undoes printing. \<open>Task\<close> (\<^verbatim>\<open>task.go\<close>) and \<open>History\<close> (\<^verbatim>\<open>history.go\<close>) rest on it: payloads
    and log lines survive as bytes; bytes that are not UTF-8 come back as the replacement rune (\<open>repair\<close>).
  \<^item> \<open>Redis\<close>: the commands used and their documented laws, as the locales \<open>redis_store\<close>, \<open>redis_bounded\<close> (an
    iteration of \<^verbatim>\<open>SCAN\<close> ends) and \<open>redis_ctx\<close>; an in-memory server interprets them. \<open>Progress\<close>,
    \<open>Progress_Correct\<close> (\<^verbatim>\<open>progress.go\<close>): the store over them; every \<open>redis_store\<close> gives a \<open>progress_contract\<close>
    (a sublocale), which is what the handler and the API rely on.
  \<^item> \<open>Handler\<close> (\<^verbatim>\<open>handler.go\<close>): \<^verbatim>\<open>ProcessTask\<close> with every update, history entry and early return.
  \<^item> \<open>Mimirconfig\<close>: the edits of the runtime document, and \<^verbatim>\<open>ApplyOverrides\<close> and \<^verbatim>\<open>RevertOverrides\<close> on the
    ConfigMap; the locales \<open>yaml_codec\<close>, \<open>configmap_api\<close> and \<open>mimir_store\<close> are what they rely on. That other settings
    are kept is shown of the raw entries of documents without loss (\<open>representable\<close>); what is lost on others
    is shown too.
  \<^item> \<open>Api\<close>, \<open>Api_Correct\<close> (\<^verbatim>\<open>handlers.go\<close>, \<^verbatim>\<open>server.go\<close>): the handlers, the defaults of \<^verbatim>\<open>NewServer\<close>, the routes; what
    each answer says about what was done; the world of a handler logs its calls (\<open>aw_calls\<close>), so their order
    across the cluster, the queue and Redis is observable. The locales \<open>enqueuer\<close>, \<open>paged_inspector\<close> and
    \<open>exact_inspector\<close> are the asynq client and inspector; the no-op inspector of \<^verbatim>\<open>server.go\<close> is one of the
    interpretations.
  \<^item> \<open>Server\<close> (\<^verbatim>\<open>cmd/server\<close>): \<^verbatim>\<open>loadConfig\<close>, and \<^verbatim>\<open>main\<close> with its goroutines as a state machine: the order of
    what it does, in every interleaving. Its blocking calls may hang, so nothing is claimed of its end; its
    Redis is what \<^verbatim>\<open>main\<close> itself writes, not what workers and API write later. \<open>Service\<close>: how \<^verbatim>\<open>main\<close> wires the API and the worker from the configuration, and when
    \<^verbatim>\<open>/readyz\<close> answers 200. \<open>Cli\<close> (\<^verbatim>\<open>cmd/revert-overrides\<close>, \<^verbatim>\<open>cmd/tenant-scan\<close>) and \<open>Migrator\<close> (\<^verbatim>\<open>cmd/migrator\<close>): the
    tools with their exit statuses.
  \<^item> This theory: the properties that span components, from the TSDB to the endpoint, from a request
    through the queue and the worker to the endpoint, and from a request to the cluster.

  \<^bold>\<open>How state and effects correspond.\<close> A struct is a record, an enumeration a datatype, a Go \<^verbatim>\<open>error\<close> a
  \<open>goerr\<close> with its text and cause, a fallible call a sum. A service (Redis, the queue, the cluster, the
  network) is a state of any type; a call returns its result and the state after it. A failed write may
  or may not have taken effect. Contexts are arguments: live, or done with an error. Panics are values.

  \<^bold>\<open>Integers, bounds and fuel.\<close> Values that cross an interface as text (payload integers, counters in Redis,
  environment variables) are integers with the 64-bit range written out where they are parsed. Counters
  inside the pipeline are natural numbers: reaching \<open>2 ^ 63\<close> samples is out of reach. The JSON parser has
  fuel \<open>3 * length + 3\<close>, which \<open>Json_Roundtrip\<close> shows to be enough. The \<^verbatim>\<open>SCAN\<close> loops are partial functions;
  \<open>Progress_Correct\<close> shows that they return on every \<open>redis_bounded\<close> server.

  \<^bold>\<open>Parameters.\<close> The iterators of Prometheus, the sizes of its messages, protobuf and snappy, \<^verbatim>\<open>yaml.v3\<close>,
  \<^verbatim>\<open>client-go\<close>, \<^verbatim>\<open>go-redis\<close>, \<^verbatim>\<open>asynq\<close>, \<^verbatim>\<open>errgroup\<close>, the file system, the clock and the formatting of times are arguments
  of the definitions. What is relied on is stated in the locales or as hypotheses, and every hypothesis
  has a concrete instance.

  \<^bold>\<open>Not modelled.\<close> Log lines, the asynq log adapter, the timeouts and pool sizes of the HTTP transports and
  the options passed to asynq's server; the texts of the errors of \<^verbatim>\<open>encoding/json\<close>, \<^verbatim>\<open>strconv\<close> and \<^verbatim>\<open>flag\<close> (only
  that there is an error); the bytes of the responses of the API (a response is its status and value) and
  of the reports of the tools; \<^verbatim>\<open>float64\<close> rounding in the estimate of \<^verbatim>\<open>/status\<close> (it is over the reals); paths
  that \<^verbatim>\<open>ServeMux\<close> would clean and redirect; the order of a range over a map followed by \<^verbatim>\<open>sort.Slice\<close> (it is the
  relation \<open>ranking\<close>, since Go does not fix it); the flag parsing of \<^verbatim>\<open>cmd/migrator\<close> (it starts from the values);
  the deployment scripts and dashboards. The progress function's writes are taken in order between the
  start and the end of a run, which is the order in which the batcher goroutine makes them.
\<close>

section \<open>From the TSDB to the endpoint\<close>
















section \<open>From the request to the worker\<close>







section \<open>From the request to the cluster\<close>

text \<open>
  C7. The overrides precede the migration: with the cluster's applier wired in, when \<^verbatim>\<open>POST /migrate\<close> answers
  200, the runtime document in the ConfigMap has the three managed settings for every tenant the
  answer names.
\<close>

theorem accepted_tenants_have_overrides:
  assumes "mimir_store Y k8s cms c" "dp_apply (sc_deps cfg) = apply_overrides Y k8s c" "enqueuer (dp_enqueue (sc_deps cfg)) tasks"
    and "handle_migrate cfg cx b w = (Reply 200 (MigrateBody refs), w')"
  shows "\<exists>data doc. cms (aw_k8s w') (cm_key c) = Some data \<and> parse_runtime_yaml Y data (cfg_data_key c) = Inr (Some doc)
    \<and> refs \<noteq> [] \<and> (\<forall>t \<in> snd ` set refs. setting doc t key_ooo = Some (YStr (cfg_ooo_window c))
         \<and> setting doc t key_ing_rate = Some (YInt 10000000) \<and> setting doc t key_ing_burst = Some (YInt 20000000))"
proof -
  obtain pids u k where d: "pids \<noteq> []" "apply_overrides Y k8s c cx pids (aw_k8s w) = (Inr u, k)"
    and loop: "enqueue_loop cfg cx pids [] (w\<lparr>aw_k8s := k, aw_calls := aw_calls w @ [CallApply pids]\<rparr>) = (Reply 200 (MigrateBody refs), w')"
    using migrate_reaches_loop [OF assms(4)] unfolding assms(2) by blast
  from enqueue_loop_effect [OF assms(3) loop] have refs: "aw_k8s w' = k" "map snd refs = pids" by auto
  from apply_overrides_effect [OF assms(1) d(2)] obtain doc data where
    "cms k (cm_key c) = Some data" "parse_runtime_yaml Y data (cfg_data_key c) = Inr (Some (apply_doc (cfg_ooo_window c) pids doc))" by auto
  moreover have "setting (apply_doc (cfg_ooo_window c) pids doc) t x = managed (cfg_ooo_window c) x"
    if "t \<in> snd ` set refs" "x \<in> {key_ooo, key_ing_rate, key_ing_burst}" for t x
  proof -
    have "t \<in> set pids" using that(1) arg_cong [OF refs(2), of set] by simp
    then show ?thesis using that(2) by (auto simp: setting_apply managed_def)
  qed
  ultimately show ?thesis
    using d(1) refs by (intro exI [of _ data] exI [of _ "apply_doc (cfg_ooo_window c) pids doc"]) (auto simp: managed_def key_defs)
qed

definition ex_cluster_server :: "(mem_redis, mem_queue, configmaps) server_config" where
  "ex_cluster_server = \<lparr>sc_deps = \<lparr>dp_enqueue = mem_enqueue, dp_apply = apply_overrides ex_yaml mem_k8s ex_mimir, dp_list = mem_list,
       dp_delete = mem_delete, dp_cancel = (\<lambda>_. noop_task_call), dp_not_found = task_not_found\<rparr>,
     sc_redis = mem_client, sc_tsdb_path = ''/data'', sc_cortex_url = ''http://c/push'', sc_max_batch_bytes = 0, sc_writer_concurrency = 0, sc_dry_run = False\<rparr>"

theorem accepted_tenants_have_overrides_witness:
  "\<exists>refs w' data doc. handle_migrate ex_cluster_server Live (ex_body [''a'']) \<lparr>aw_redis = ex_redis, aw_queue = \<lparr>mq_tasks = [], mq_room = 1\<rparr>, aw_k8s = ex_cluster, aw_calls = []\<rparr>
       = (Reply 200 (MigrateBody refs), w')
     \<and> aw_k8s w' (cm_key ex_mimir) = Some data \<and> parse_runtime_yaml ex_yaml data ''runtime.yaml'' = Inr (Some doc) \<and> refs \<noteq> []"
proof -
  let ?w = "\<lparr>aw_redis = ex_redis, aw_queue = \<lparr>mq_tasks = [], mq_room = 1\<rparr>, aw_k8s = ex_cluster, aw_calls = []\<rparr>"
  have dec: "decode_migrate_request (ex_body [''a'']) = Inr [''a'']" by (rule ex_body_decodes) (simp_all add: wire_eval)
  have "patch_configmap ex_yaml mem_k8s ex_mimir Live (apply_doc ''2880h'' [''a''] fmempty) ex_cluster
      = (Inr (), merge_patch (cm_key ex_mimir) ''runtime.yaml'' ''A'' ex_cluster)"
    by (rule ex_patch) (auto simp: ex_enc ex_cluster_def cm_key_def)
  then have app: "\<exists>k. apply_overrides ex_yaml mem_k8s ex_mimir Live [''a''] ex_cluster = (Inr (), k)"
    by (simp add: apply_overrides_def ex_get_doc)
  have deps: "dp_apply (sc_deps ex_cluster_server) = apply_overrides ex_yaml mem_k8s ex_mimir" "dp_enqueue (sc_deps ex_cluster_server) = mem_enqueue"
    by (simp_all add: ex_cluster_server_def)
  from app have "\<exists>refs w'. handle_migrate ex_cluster_server Live (ex_body [''a'']) ?w = (Reply 200 (MigrateBody refs), w')"
    by (auto simp: handle_migrate_def call_apply_def call_enqueue_def call_update_def dec deps mem_enqueue_def case_prod_beta Let_def)
  then obtain refs w' where r: "handle_migrate ex_cluster_server Live (ex_body [''a'']) ?w = (Reply 200 (MigrateBody refs), w')"
    by (elim exE)
  have enq: "enqueuer (dp_enqueue (sc_deps ex_cluster_server)) mq_tasks" unfolding deps by (rule mem_enq.enqueuer_axioms)
  from accepted_tenants_have_overrides [OF ex_store.mimir_store_axioms deps(1) enq r] obtain data doc where
    "aw_k8s w' (cm_key ex_mimir) = Some data" "parse_runtime_yaml ex_yaml data (cfg_data_key ex_mimir) = Inr (Some doc)" "refs \<noteq> []"
    by (elim exE conjE)
  with r show ?thesis unfolding ex_mimir_simps by (intro exI conjI)
qed

section \<open>Boot with nothing configured\<close>

text \<open>
  The default endpoint of the configuration does not end in \<^verbatim>\<open>/push\<close>, so without \<^verbatim>\<open>CORTEX_URL\<close> the probe
  fails at once, whatever is running there.
\<close>

theorem default_endpoint_fails_probe:
  "\<exists>cfg. load_config (\<lambda>_. []) = Inr cfg \<and> fst (probe N c (cortex_url cfg) n) \<noteq> None \<and> snd (probe N c (cortex_url cfg) n) = n"
  by (simp add: config_defs probe_def has_suffix_def)

end
